theory Spec2Isabelle
  imports Complex_Main "HOL-Library.Word" "HOL-Library.Log_Nat"
begin

section \<open>Data model\<close>

text \<open>
  The program is \<^verbatim>\<open>src/brain_tumor_prediction.py\<close>; the function verified here is
  \<^verbatim>\<open>generate_saliency_map\<close> (lines 54-102) together with the module-level names it reads.

  A NumPy array of two spatial dimensions is kept as its shape and its cells in row-major
  order, the order in which NumPy stores a C-contiguous array and in which boolean-mask
  indexing enumerates it: the cell of row \<open>y\<close> and column \<open>x\<close> is number
  \<open>y * ncols + x\<close>. Floating-point cells are rationals: lines 62-85 are modelled in exact
  arithmetic, and lines 90-92, whose rounding decides the bytes returned, with the rounding
  of IEEE arithmetic. 8-bit cells are \<open>8 word\<close>. A colour image of shape (H, W, 3) is an
  array whose cells are lists of channels.
\<close>

datatype 'a ndarray = NDArray (nrows: nat) (ncols: nat) (cells: "'a list")

type_synonym u8 = "8 word"

definition well_shaped :: "'a ndarray \<Rightarrow> bool" where
  "well_shaped a \<longleftrightarrow> length (cells a) = nrows a * ncols a"

definition cell :: "'a ndarray \<Rightarrow> nat \<Rightarrow> nat \<Rightarrow> 'a" where
  "cell a y x = cells a ! (y * ncols a + x)"

text \<open>
  The exceptions the function can end with; \<open>OSError\<close> stands for its subclasses too.
  \<open>NonFiniteValue\<close> is not a Python exception: rationals have no NaN or Inf, so the model
  stops with this outcome at the one place where NumPy would write a non-finite number into
  the array (a division by zero on line 77).
\<close>

datatype error =
  InvalidArgumentError | ValueError | CvError | AttributeError | OSError | NonFiniteValue

section \<open>The circular mask (lines 68-71)\<close>

text \<open>
  \<^verbatim>\<open>center = (gradients.shape[0] // 2, gradients.shape[1] // 2)\<close>
  \<^verbatim>\<open>radius = min(center[0], center[1]) - 10\<close>
  \<^verbatim>\<open>y, x = np.ogrid[:gradients.shape[0], :gradients.shape[1]]\<close>
  \<^verbatim>\<open>mask = (x - center[0])**2 + (y - center[1])**2 <= radius**2\<close>

  \<open>y\<close> runs over the rows and \<open>x\<close> over the columns; the source subtracts
  \<open>center[0]\<close> (half the number of rows) from \<open>x\<close> and \<open>center[1]\<close> from \<open>y\<close>,
  and the model does the same. The radius is a Python integer and may be negative.
\<close>

definition mask_test :: "nat \<Rightarrow> nat \<Rightarrow> nat \<Rightarrow> nat \<Rightarrow> bool" where
  "mask_test h w y x =
     (let center = (int h div 2, int w div 2);
          radius = min (fst center) (snd center) - 10
      in (int x - fst center)\<^sup>2 + (int y - snd center)\<^sup>2 \<le> radius\<^sup>2)"

definition circular_mask :: "nat \<Rightarrow> nat \<Rightarrow> bool ndarray" where
  "circular_mask h w =
     NDArray h w (concat (map (\<lambda>y. map (\<lambda>x. mask_test h w y x) [0..<w]) [0..<h]))"

section \<open>Masking, in-mask normalisation and the percentile threshold (lines 73-81)\<close>

text \<open>\<^verbatim>\<open>gradients = gradients * mask\<close>: the two arrays have the same shape.\<close>

definition apply_mask :: "rat ndarray \<Rightarrow> bool ndarray \<Rightarrow> rat ndarray" where
  "apply_mask g m =
     NDArray (nrows g) (ncols g) (map2 (\<lambda>v b. v * (if b then 1 else 0)) (cells g) (cells m))"

text \<open>\<^verbatim>\<open>gradients[mask]\<close>: the cells where the mask is true, in row-major order.\<close>

definition select_mask :: "'a ndarray \<Rightarrow> bool ndarray \<Rightarrow> 'a list" where
  "select_mask g m = map fst (filter snd (zip (cells g) (cells m)))"

text \<open>
  \<^verbatim>\<open>gradients[mask] = values\<close>: the values are written, in order, into the cells where
  the mask is true. The source always passes as many values as the mask has true cells.
\<close>

fun put_mask :: "'a list \<Rightarrow> bool list \<Rightarrow> 'a list \<Rightarrow> 'a list" where
  "put_mask (g # gs) (b # bs) vs =
     (if b then (case vs of [] \<Rightarrow> g # gs | v # vs' \<Rightarrow> v # put_mask gs bs vs')
      else g # put_mask gs bs vs)"
| "put_mask gs _ _ = gs"

text \<open>
  \<^verbatim>\<open>a.max()\<close> and \<^verbatim>\<open>a.min()\<close> raise \<^verbatim>\<open>ValueError\<close> on an array of size zero.
\<close>

definition np_max :: "rat list \<Rightarrow> error + rat" where
  "np_max xs = (case xs of [] \<Rightarrow> Inl ValueError | x # r \<Rightarrow> Inr (fold max r x))"

definition np_min :: "rat list \<Rightarrow> error + rat" where
  "np_min xs = (case xs of [] \<Rightarrow> Inl ValueError | x # r \<Rightarrow> Inr (fold min r x))"

text \<open>
  Array division: a zero divisor gives NaN or Inf (with a warning, not an exception), which
  the model reports as \<open>None\<close>.
\<close>

definition np_divide :: "rat \<Rightarrow> rat \<Rightarrow> rat option" where
  "np_divide a b = (if b = 0 then None else Some (a / b))"

text \<open>
  Lines 75-78:
  \<^verbatim>\<open>brain_gradients = gradients[mask]\<close>
  \<^verbatim>\<open>if brain_gradients.max() > brain_gradients.min():\<close>
  \<^verbatim>\<open>    brain_gradients = (brain_gradients - brain_gradients.min()) / (brain_gradients.max() - brain_gradients.min())\<close>
  \<^verbatim>\<open>    gradients[mask] = brain_gradients\<close>
\<close>

definition normalize_brain :: "rat ndarray \<Rightarrow> bool ndarray \<Rightarrow> error + rat ndarray" where
  "normalize_brain g m =
     (let brain_gradients = select_mask g m in
      case np_max brain_gradients of
        Inl e \<Rightarrow> Inl e
      | Inr mx \<Rightarrow>
          (case np_min brain_gradients of
             Inl e \<Rightarrow> Inl e
           | Inr mn \<Rightarrow>
               if mx > mn then
                 (case those (map (\<lambda>v. np_divide (v - mn) (mx - mn)) brain_gradients) of
                    None \<Rightarrow> Inl NonFiniteValue
                  | Some scaled \<Rightarrow>
                      Inr (NDArray (nrows g) (ncols g) (put_mask (cells g) (cells m) scaled)))
               else Inr g))"

text \<open>
  \<^verbatim>\<open>np.percentile(a, q)\<close> with NumPy's default linear interpolation: on the sorted
  values, the virtual index is \<open>q / 100 * (n - 1)\<close>, and the result interpolates between the
  two neighbouring values. It is only applied to a selection that line 76 has already found
  non-empty.
\<close>

definition np_percentile :: "rat list \<Rightarrow> nat \<Rightarrow> rat" where
  "np_percentile xs q =
     (let s = sort xs;
          n = length xs;
          lo = (q * (n - 1)) div 100;
          hi = min (lo + 1) (n - 1);
          gamma = of_nat ((q * (n - 1)) mod 100) / 100
      in s ! lo + gamma * (s ! hi - s ! lo))"

text \<open>
  Lines 80-81:
  \<^verbatim>\<open>threshold = np.percentile(gradients[mask], 80)\<close>
  \<^verbatim>\<open>gradients[gradients < threshold] = 0\<close>
\<close>

definition percentile_threshold :: "rat ndarray \<Rightarrow> bool ndarray \<Rightarrow> rat ndarray" where
  "percentile_threshold g m =
     (let threshold = np_percentile (select_mask g m) 80
      in NDArray (nrows g) (ncols g) (map (\<lambda>v. if v < threshold then 0 else v) (cells g)))"

section \<open>The classifier, the image library and the file system\<close>

text \<open>
  The classifier and OpenCV are not code of this repository; the function receives the
  first as its parameter \<^verbatim>\<open>model\<close> and calls the second. They are parameters of the
  model, and they are functions: a classifier or a library routine whose result changes
  from one call to the next is outside the model. \<open>img_array\<close> has shape (1, H, W, 3):
  the model keeps the one image of the batch, each cell holding its three channels.

  \<open>forward\<close> is \<^verbatim>\<open>model(img_tensor)\<close>, the row of class scores; \<open>tape_gradient\<close> is
  \<^verbatim>\<open>tape.gradient(target_class, img_tensor)\<close> for the selected class.
\<close>

type_synonym tensor = "(rat \<times> rat \<times> rat) ndarray"

datatype classifier =
  Classifier (forward: "tensor \<Rightarrow> rat list") (tape_gradient: "tensor \<Rightarrow> nat \<Rightarrow> tensor")

text \<open>
  \<^verbatim>\<open>squeeze()\<close> on line 64 removes every axis of length 1 from the array of shape
  (1, H, W): the batch axis always, and a spatial axis too when the image has one row or one
  column. What is left is a matrix, a vector or a single number.
\<close>

datatype squeezed = Scalar rat | Vector "rat list" | Matrix "rat ndarray"

text \<open>
  \<open>cv_resize\<close> is \<^verbatim>\<open>cv2.resize\<close> on what \<^verbatim>\<open>squeeze()\<close> returned, with the
  \<^verbatim>\<open>cv2.error\<close> it may raise; \<open>cv_gaussian_blur\<close> is
  \<^verbatim>\<open>cv2.GaussianBlur(_, (11, 11), 0)\<close>, \<open>cv_colormap\<close> is the lookup table of
  \<^verbatim>\<open>cv2.COLORMAP_JET\<close> (each entry in OpenCV's blue, green, red order),
  \<open>cv_resize_rgb\<close> is \<^verbatim>\<open>cv2.resize\<close> on an 8-bit colour image, and \<open>cv_imwrite\<close>
  is \<^verbatim>\<open>cv2.imwrite\<close>: \<open>None\<close> when it returns and the exception otherwise (it raises
  when the file name has no extension for which it has an encoder). A size is given to
  OpenCV as (width, height).
\<close>

datatype libs = Libs
  (cv_resize: "squeezed \<Rightarrow> nat \<times> nat \<Rightarrow> error + rat ndarray")
  (cv_gaussian_blur: "rat ndarray \<Rightarrow> rat ndarray")
  (cv_colormap: "u8 \<Rightarrow> u8 \<times> u8 \<times> u8")
  (cv_resize_rgb: "u8 list ndarray \<Rightarrow> nat \<times> nat \<Rightarrow> u8 list ndarray")
  (cv_imwrite: "string \<Rightarrow> u8 list ndarray \<Rightarrow> error option")

text \<open>
  What the theorems below assume of OpenCV: a resized map has the requested height and
  width, a matrix that is not empty can be resized to every size whose sides are positive,
  a blurred map has the shape of its input, and resizing a colour image to the size it
  already has returns it unchanged.
\<close>

definition libs_ok :: "libs \<Rightarrow> bool" where
  "libs_ok L \<longleftrightarrow>
     (\<forall>a w h r. cv_resize L a (w, h) = Inr r \<longrightarrow> nrows r = h \<and> ncols r = w \<and> well_shaped r) \<and>
     (\<forall>m w h. well_shaped m \<and> 0 < nrows m \<and> 0 < ncols m \<and> 0 < w \<and> 0 < h \<longrightarrow>
        (\<exists>r. cv_resize L (Matrix m) (w, h) = Inr r)) \<and>
     (\<forall>a. nrows (cv_gaussian_blur L a) = nrows a \<and> ncols (cv_gaussian_blur L a) = ncols a \<and>
        length (cells (cv_gaussian_blur L a)) = length (cells a)) \<and>
     (\<forall>a. cv_resize_rgb L a (ncols a, nrows a) = a)"

text \<open>
  A second assumption, used only for an all-zero gradient: resizing and blurring are
  weighted averages of the cells, so both turn a map of zeros into a map of zeros.
\<close>

definition keeps_zero :: "libs \<Rightarrow> bool" where
  "keeps_zero L \<longleftrightarrow>
     (\<forall>m dsize r. (\<forall>v \<in> set (cells m). v = 0) \<and> cv_resize L (Matrix m) dsize = Inr r \<longrightarrow>
        (\<forall>v \<in> set (cells r). v = 0)) \<and>
     (\<forall>a. (\<forall>v \<in> set (cells a). v = 0) \<longrightarrow>
        (\<forall>v \<in> set (cells (cv_gaussian_blur L a)). v = 0))"

text \<open>
  The state the function reads without receiving it: the module-level names \<^verbatim>\<open>img\<close>,
  the PIL image loaded on line 192 (RGB, 8 bits per channel), and \<^verbatim>\<open>uploaded_file\<close>
  (line 176), which is \<^verbatim>\<open>None\<close> or an upload with a name; and the file system, of
  which the model keeps what decides how the call ends: \<open>open_wb path\<close> is \<open>None\<close> when
  \<^verbatim>\<open>open(path, "wb")\<close> and the write to the file succeed, and the exception otherwise
  (an \<^verbatim>\<open>OSError\<close> such as \<^verbatim>\<open>FileNotFoundError\<close> or \<^verbatim>\<open>IsADirectoryError\<close>). The
  contents of the files written are not part of the model.
\<close>

datatype env = Env
  (img: "(u8 \<times> u8 \<times> u8) ndarray")
  (uploaded_file: "string option")
  (open_wb: "string \<Rightarrow> error option")

text \<open>The calls made to the classifier, in the order in which they happen.\<close>

datatype model_call = ModelForward | TapeGradient

section \<open>Gradient extraction (lines 55-64)\<close>

text \<open>
  \<^verbatim>\<open>target_class = predictions[:, class_index]\<close>: TensorFlow resolves a negative index
  from the end and raises \<^verbatim>\<open>InvalidArgumentError\<close> for an index out of bounds.
\<close>

definition tf_column :: "rat list \<Rightarrow> int \<Rightarrow> error + nat" where
  "tf_column predictions class_index =
     (let n = int (length predictions) in
      if 0 \<le> class_index \<and> class_index < n then Inr (nat class_index)
      else if - n \<le> class_index \<and> class_index < 0 then Inr (nat (n + class_index))
      else Inl InvalidArgumentError)"

text \<open>
  \<^verbatim>\<open>gradients = tf.math.abs(gradients)\<close>
  \<^verbatim>\<open>gradients = tf.reduce_max(gradients, axis=-1)\<close>

  The maximum over the channels leaves shape (1, H, W), kept as an array of H rows and W
  columns.
\<close>

definition channel_max_abs :: "tensor \<Rightarrow> rat ndarray" where
  "channel_max_abs t =
     NDArray (nrows t) (ncols t) (map (\<lambda>(r, g, b). max \<bar>r\<bar> (max \<bar>g\<bar> \<bar>b\<bar>)) (cells t))"

text \<open>
  \<^verbatim>\<open>gradients = gradients.numpy().squeeze()\<close>: shape (1, 1, 1) becomes a number, shape
  (1, 1, W) or (1, H, 1) a vector, and every other shape (1, H, W) the matrix (H, W).
\<close>

definition np_squeeze :: "rat ndarray \<Rightarrow> squeezed" where
  "np_squeeze a =
     (if nrows a = 1 \<and> ncols a = 1 then Scalar (hd (cells a))
      else if nrows a = 1 \<or> ncols a = 1 then Vector (cells a)
      else Matrix a)"

text \<open>
  A gradient tensor of at least two rows and two columns, of which \<^verbatim>\<open>squeeze()\<close>
  removes the batch axis only.
\<close>

definition plain_batch :: "tensor \<Rightarrow> bool" where
  "plain_batch t \<longleftrightarrow> well_shaped t \<and> 1 < nrows t \<and> 1 < ncols t"

section \<open>Floating-point arithmetic\<close>

text \<open>
  Lines 90-92 compute in IEEE binary floating point, and the bytes returned depend on how
  the products and the sum are rounded. A finite floating-point number is a rational;
  \<open>ieee_round p x\<close> is the number with \<open>p\<close> significant bits nearest to \<open>x\<close>, a tie going
  to the even neighbour. \<open>binade x\<close> is the exponent \<open>e\<close> with \<open>2^e \<le> x < 2^(e+1)\<close>. The
  exponent range is not modelled: the numbers of lines 90-92 are zero or lie between 0.29
  and 256, far from overflow and from the subnormal numbers.
\<close>

definition round_half_even :: "rat \<Rightarrow> int" where
  "round_half_even x =
     (let f = \<lfloor>x\<rfloor>; d = x - of_int f
      in if d < 1 / 2 then f else if 1 / 2 < d then f + 1 else if even f then f else f + 1)"

definition binade :: "rat \<Rightarrow> int" where
  "binade x =
     (if 1 \<le> x then int (floorlog 2 (nat \<lfloor>x\<rfloor>)) - 1
      else - int (floorlog 2 (nat (\<lceil>1 / x\<rceil> - 1))))"

definition ieee_round :: "nat \<Rightarrow> rat \<Rightarrow> rat" where
  "ieee_round p x =
     (if x = 0 then 0
      else let ulp = 2 powi (binade \<bar>x\<bar> - int p + 1)
           in sgn x * of_int (round_half_even (\<bar>x\<bar> / ulp)) * ulp)"

definition float32 :: "rat \<Rightarrow> rat" where
  "float32 = ieee_round 24"

definition float64 :: "rat \<Rightarrow> rat" where
  "float64 = ieee_round 53"

section \<open>Blur, colour and composite (lines 83-92)\<close>

text \<open>
  \<^verbatim>\<open>np.uint8(v)\<close> and \<^verbatim>\<open>astype(np.uint8)\<close> drop the fraction; a value outside 0..255
  is reduced modulo 256.
\<close>

definition np_uint8 :: "rat \<Rightarrow> u8" where
  "np_uint8 v = word_of_int (if 0 \<le> v then \<lfloor>v\<rfloor> else \<lceil>v\<rceil>)"

text \<open>\<^verbatim>\<open>cv2.applyColorMap(np.uint8(255 * gradients), cv2.COLORMAP_JET)\<close>\<close>

definition apply_color_map :: "libs \<Rightarrow> rat ndarray \<Rightarrow> u8 list ndarray" where
  "apply_color_map L g =
     NDArray (nrows g) (ncols g)
       (map (\<lambda>v. case cv_colormap L (np_uint8 (255 * v)) of (b, g, r) \<Rightarrow> [b, g, r]) (cells g))"

text \<open>
  \<^verbatim>\<open>cv2.cvtColor(heatmap, cv2.COLOR_BGR2RGB)\<close> exchanges the first and third channel,
  and so does \<^verbatim>\<open>cv2.COLOR_RGB2BGR\<close> on line 100.
\<close>

definition cvt_bgr2rgb :: "u8 list ndarray \<Rightarrow> u8 list ndarray" where
  "cvt_bgr2rgb a =
     NDArray (nrows a) (ncols a)
       (map (\<lambda>px. case px of [b, g, r] \<Rightarrow> [r, g, b] | _ \<Rightarrow> px) (cells a))"

definition cvt_rgb2bgr :: "u8 list ndarray \<Rightarrow> u8 list ndarray" where
  "cvt_rgb2bgr a =
     NDArray (nrows a) (ncols a)
       (map (\<lambda>px. case px of [r, g, b] \<Rightarrow> [b, g, r] | _ \<Rightarrow> px) (cells a))"

text \<open>
  \<^verbatim>\<open>image.img_to_array(img)\<close>: the PIL image as a float32 array of shape (H, W, 3). A
  byte is a float32 number as it is.
\<close>

definition channels :: "u8 \<times> u8 \<times> u8 \<Rightarrow> u8 list" where
  "channels px = (case px of (r, g, b) \<Rightarrow> [r, g, b])"

definition img_to_array :: "(u8 \<times> u8 \<times> u8) ndarray \<Rightarrow> rat list ndarray" where
  "img_to_array p =
     NDArray (nrows p) (ncols p) (map (\<lambda>px. map (\<lambda>v. of_nat (unat v)) (channels px)) (cells p))"

text \<open>
  A Python literal such as \<^verbatim>\<open>0.3\<close> is the float64 number nearest to it. The product of
  a float32 array and a Python number is a float32 array: the number is converted to
  float32 and each product is rounded to float32.
\<close>

definition mul_float32 :: "rat list ndarray \<Rightarrow> rat \<Rightarrow> rat list ndarray" where
  "mul_float32 a k =
     NDArray (nrows a) (ncols a) (map (map (\<lambda>v. float32 (v * float32 (float64 k)))) (cells a))"

text \<open>
  The product of a uint8 array and a Python number is a float64 array: each byte is
  converted to float64, as it is, and each product is rounded to float64.
\<close>

definition mul_float64 :: "u8 list ndarray \<Rightarrow> rat \<Rightarrow> rat list ndarray" where
  "mul_float64 a k =
     NDArray (nrows a) (ncols a)
       (map (map (\<lambda>v. float64 (of_nat (unat v) * float64 k))) (cells a))"

text \<open>
  NumPy's addition of a float64 and a float32 array of shapes (H, W, 3) and (H', W', 3): an
  axis of length 1 is repeated along the other array's axis, equal lengths are added cell by
  cell, and any other pair of lengths raises \<^verbatim>\<open>ValueError\<close>. The sums are float64.
\<close>

definition broadcast_dim :: "nat \<Rightarrow> nat \<Rightarrow> nat option" where
  "broadcast_dim a b =
     (if a = b then Some a else if a = 1 then Some b else if b = 1 then Some a else None)"

definition np_add :: "rat list ndarray \<Rightarrow> rat list ndarray \<Rightarrow> error + rat list ndarray" where
  "np_add a b =
     (case (broadcast_dim (nrows a) (nrows b), broadcast_dim (ncols a) (ncols b)) of
        (Some h, Some w) \<Rightarrow>
          Inr (NDArray h w
            (map (\<lambda>i. map2 (\<lambda>x y. float64 (x + y))
                    (cell a (if nrows a = 1 then 0 else i div w) (if ncols a = 1 then 0 else i mod w))
                    (cell b (if nrows b = 1 then 0 else i div w) (if ncols b = 1 then 0 else i mod w)))
               [0..<h * w]))
      | _ \<Rightarrow> Inl ValueError)"

definition astype_uint8 :: "rat list ndarray \<Rightarrow> u8 list ndarray" where
  "astype_uint8 a = NDArray (nrows a) (ncols a) (map (map np_uint8) (cells a))"

text \<open>
  Lines 90-92:
  \<^verbatim>\<open>original_img = image.img_to_array(img) * 0.3\<close>
  \<^verbatim>\<open>superimposed_img = heatmap * 0.7 + original_img\<close>
  \<^verbatim>\<open>superimposed_img = superimposed_img.astype(np.uint8)\<close>
\<close>

definition superimpose ::
  "u8 list ndarray \<Rightarrow> (u8 \<times> u8 \<times> u8) ndarray \<Rightarrow> error + u8 list ndarray" where
  "superimpose heatmap pil_img =
     (let original_img = mul_float32 (img_to_array pil_img) (3 / 10) in
      case np_add (mul_float64 heatmap (7 / 10)) original_img of
        Inl e \<Rightarrow> Inl e
      | Inr superimposed_img \<Rightarrow> Inr (astype_uint8 superimposed_img))"

text \<open>
  Lines 90-92 for one channel of one pixel, as a number and before the cast: the byte of
  the image and the byte of the heat map.
\<close>

definition float_blend :: "u8 \<Rightarrow> u8 \<Rightarrow> rat" where
  "float_blend original heat =
     float64 (float64 (of_nat (unat heat) * float64 (7 / 10)) +
              float32 (of_nat (unat original) * float32 (float64 (3 / 10))))"

text \<open>Lines 90-92 for one pixel: the heat map's channels and the image's pixel.\<close>

definition blend_pixel :: "u8 list \<Rightarrow> u8 \<times> u8 \<times> u8 \<Rightarrow> u8 list" where
  "blend_pixel hpx ppx = map np_uint8 (map2 (\<lambda>h v. float_blend v h) hpx (channels ppx))"

text \<open>
  The composite as the specification words it, for one channel of one pixel: 0.3 times the
  original plus 0.7 times the heat map, then clipped to [0,255] and cast to an integer.
\<close>

definition spec_blend :: "u8 \<Rightarrow> u8 \<Rightarrow> rat" where
  "spec_blend original heat = 3 / 10 * of_nat (unat original) + 7 / 10 * of_nat (unat heat)"

definition spec_clip_cast :: "rat \<Rightarrow> int" where
  "spec_clip_cast v = \<lfloor>max 0 (min 255 v)\<rfloor>"

section \<open>Saving the files (lines 94-102)\<close>

text \<open>
  \<^verbatim>\<open>output_dir = 'saliency_maps'\<close> (line 24); \<^verbatim>\<open>os.path.join(output_dir, name)\<close> on a
  POSIX system, where a second component that starts with a slash replaces the first; and
  \<^verbatim>\<open>f'saliency_maps/{uploaded_file.name}'\<close>.
\<close>

definition output_dir :: string where
  "output_dir = ''saliency_maps''"

definition os_path_join :: "string \<Rightarrow> string \<Rightarrow> string" where
  "os_path_join a b =
     (if b \<noteq> [] \<and> hd b = CHR ''/'' then b
      else if a = [] \<or> last a = CHR ''/'' then a @ b
      else a @ ''/'' @ b)"

definition saliency_map_path :: "string \<Rightarrow> string" where
  "saliency_map_path name = ''saliency_maps/'' @ name"

text \<open>
  Lines 94-100,
  \<^verbatim>\<open>img_path = os.path.join(output_dir, uploaded_file.name)\<close>
  \<^verbatim>\<open>with open(img_path, "wb") as f:\<close>
  \<^verbatim>\<open>    f.write(uploaded_file.getbuffer())\<close>
  \<^verbatim>\<open>saliency_map_path = f'saliency_maps/{uploaded_file.name}'\<close>
  \<^verbatim>\<open>cv2.imwrite(saliency_map_path, cv2.cvtColor(superimposed_img, cv2.COLOR_RGB2BGR))\<close>

  followed by \<^verbatim>\<open>return superimposed_img\<close>. The result is the exception these lines
  raise, or the array returned: \<^verbatim>\<open>uploaded_file.name\<close> is an \<^verbatim>\<open>AttributeError\<close>
  when the name is bound to \<^verbatim>\<open>None\<close>.
\<close>

definition save_and_return :: "libs \<Rightarrow> env \<Rightarrow> u8 list ndarray \<Rightarrow> error + u8 list ndarray" where
  "save_and_return L E superimposed_img =
     (case uploaded_file E of
        None \<Rightarrow> Inl AttributeError
      | Some name \<Rightarrow>
          (case open_wb E (os_path_join output_dir name) of
             Some e \<Rightarrow> Inl e
           | None \<Rightarrow>
               (case cv_imwrite L (saliency_map_path name) (cvt_rgb2bgr superimposed_img) of
                  Some e \<Rightarrow> Inl e
                | None \<Rightarrow> Inr superimposed_img)))"

section \<open>The function\<close>

text \<open>
  Lines 62-81, from the gradient tensor to the map before the blur, which is kept as a
  function of its own, since claims speak about it.
\<close>

definition thresholded_map :: "libs \<Rightarrow> tensor \<Rightarrow> nat \<times> nat \<Rightarrow> error + rat ndarray" where
  "thresholded_map L gradients img_size =
     (case cv_resize L (np_squeeze (channel_max_abs gradients)) img_size of
        Inl e \<Rightarrow> Inl e
      | Inr resized \<Rightarrow>
          (let mask = circular_mask (nrows resized) (ncols resized)
           in case normalize_brain (apply_mask resized mask) mask of
                Inl e \<Rightarrow> Inl e
              | Inr normalized \<Rightarrow> Inr (percentile_threshold normalized mask)))"

text \<open>Lines 62-88, from the gradient tensor to the heat map.\<close>

definition saliency_heatmap :: "libs \<Rightarrow> tensor \<Rightarrow> nat \<times> nat \<Rightarrow> error + u8 list ndarray" where
  "saliency_heatmap L gradients img_size =
     (case thresholded_map L gradients img_size of
        Inl e \<Rightarrow> Inl e
      | Inr thresholded \<Rightarrow>
          Inr (cv_resize_rgb L
                 (cvt_bgr2rgb (apply_color_map L (cv_gaussian_blur L thresholded))) img_size))"

text \<open>
  \<^verbatim>\<open>generate_saliency_map(model, img_array, class_index, img_size)\<close>. The result is the
  list of calls made to the classifier and either the exception raised or the array
  returned.
\<close>

definition generate_saliency_map ::
  "libs \<Rightarrow> env \<Rightarrow> classifier \<Rightarrow> tensor \<Rightarrow> int \<Rightarrow> nat \<times> nat
     \<Rightarrow> model_call list \<times> (error + u8 list ndarray)" where
  "generate_saliency_map L E model img_array class_index img_size =
     (let predictions = forward model img_array in
      case tf_column predictions class_index of
        Inl e \<Rightarrow> ([ModelForward], Inl e)
      | Inr k \<Rightarrow>
          ([ModelForward, TapeGradient],
           case saliency_heatmap L (tape_gradient model img_array k) img_size of
             Inl e \<Rightarrow> Inl e
           | Inr heatmap \<Rightarrow>
               (case superimpose heatmap (img E) of
                  Inl e \<Rightarrow> Inl e
                | Inr superimposed_img \<Rightarrow> save_and_return L E superimposed_img)))"

section \<open>Stand-ins for the classifier, for OpenCV and for the file system\<close>

text \<open>
  Concrete functions on which the function can be run: a nearest-neighbour resize (with a
  default cell where the source has none) that takes a vector as a single column and
  refuses a single number, an empty array and a size with a zero side; the identity in
  place of the blur; a piecewise-linear rendering of the jet palette (at level 0 it gives
  blue 128, green 0 and red 0, the first entry of OpenCV's table); a writer that knows the
  extensions \<^verbatim>\<open>.png\<close>, \<^verbatim>\<open>.jpg\<close> and \<^verbatim>\<open>.jpeg\<close>; a file system that holds the
  directory \<^verbatim>\<open>saliency_maps\<close> and nothing else; and a linear classifier, whose gradient
  with respect to its input is the same constant everywhere.
\<close>

definition nearest_resize :: "'a \<Rightarrow> 'a ndarray \<Rightarrow> nat \<times> nat \<Rightarrow> 'a ndarray" where
  "nearest_resize d a dsize =
     (case dsize of
        (w, h) \<Rightarrow>
          NDArray h w
            (map (\<lambda>i. let j = ((i div w) * nrows a div h) * ncols a + (i mod w) * ncols a div w
                      in if j < length (cells a) then cells a ! j else d)
               [0..<h * w]))"

definition resize_map :: "squeezed \<Rightarrow> nat \<times> nat \<Rightarrow> error + rat ndarray" where
  "resize_map a dsize =
     (if fst dsize = 0 \<or> snd dsize = 0 then Inl CvError
      else case a of
        Scalar c \<Rightarrow> Inl CvError
      | Vector v \<Rightarrow>
          if v = [] then Inl CvError else Inr (nearest_resize 0 (NDArray (length v) 1 v) dsize)
      | Matrix m \<Rightarrow>
          if cells m = [] then Inl CvError else Inr (nearest_resize 0 m dsize))"

definition resize_rgb :: "u8 list ndarray \<Rightarrow> nat \<times> nat \<Rightarrow> u8 list ndarray" where
  "resize_rgb a dsize = (if dsize = (ncols a, nrows a) then a else nearest_resize [] a dsize)"

definition jet_ramp :: "rat \<Rightarrow> u8 \<Rightarrow> u8" where
  "jet_ramp k level =
     np_uint8 (255 * max 0 (min 1 (3 / 2 - \<bar>4 * of_nat (unat level) / 255 - k\<bar>)) + 1 / 2)"

definition jet_palette :: "u8 \<Rightarrow> u8 \<times> u8 \<times> u8" where
  "jet_palette level = (jet_ramp 1 level, jet_ramp 2 level, jet_ramp 3 level)"

definition ends_with :: "string \<Rightarrow> string \<Rightarrow> bool" where
  "ends_with suffix s \<longleftrightarrow> take (length suffix) (rev s) = rev suffix"

definition imwrite_by_extension :: "string \<Rightarrow> u8 list ndarray \<Rightarrow> error option" where
  "imwrite_by_extension path im =
     (if ends_with ''.png'' path \<or> ends_with ''.jpg'' path \<or> ends_with ''.jpeg'' path
      then None else Some CvError)"

definition plain_libs :: libs where
  "plain_libs = Libs resize_map (\<lambda>a. a) jet_palette resize_rgb imwrite_by_extension"

definition one_directory :: "string \<Rightarrow> error option" where
  "one_directory path =
     (let name = drop 14 path
      in if take 14 path = ''saliency_maps/'' \<and> name \<noteq> [] \<and> CHR ''/'' \<notin> set name
         then None else Some OSError)"

definition linear_stub :: "nat \<Rightarrow> rat \<Rightarrow> classifier" where
  "linear_stub n c =
     Classifier
       (\<lambda>t. replicate n (c * sum_list (map (\<lambda>(r, g, b). r + g + b) (cells t))))
       (\<lambda>t k. NDArray (nrows t) (ncols t) (map (\<lambda>_. (c, c, c)) (cells t)))"

definition flat_tensor :: "nat \<Rightarrow> nat \<Rightarrow> rat \<Rightarrow> tensor" where
  "flat_tensor h w v = NDArray h w (replicate (h * w) (v, v, v))"

definition flat_image :: "nat \<Rightarrow> nat \<Rightarrow> u8 \<Rightarrow> (u8 \<times> u8 \<times> u8) ndarray" where
  "flat_image h w v = NDArray h w (replicate (h * w) (v, v, v))"

section \<open>Properties of the mask\<close>

lemma concat_rows_nth:
  "y < h \<Longrightarrow> x < w \<Longrightarrow> concat (map (\<lambda>y. map (f y) [0..<w]) [0..<h]) ! (y * w + x) = f y x"
proof (induction h)
  case 0
  then show ?case by simp
next
  case (Suc h)
  have len: "length (concat (map (\<lambda>y. map (f y) [0..<w]) [0..<h])) = h * w"
    by (induction h) simp_all
  show ?case
  proof (cases "y < h")
    case True
    then have "y * w + x < h * w"
    proof -
      have "y * w + x < y * w + w" using Suc.prems by simp
      also have "\<dots> = Suc y * w" by simp
      also have "\<dots> \<le> h * w" using True by (intro mult_le_mono1) simp
      finally show ?thesis .
    qed
    then show ?thesis using Suc.IH True Suc.prems by (simp add: nth_append len)
  next
    case False
    then have "y = h" using Suc.prems by simp
    then show ?thesis using Suc.prems by (simp add: nth_append len)
  qed
qed

lemma concat_rows_length:
  "length (concat (map (\<lambda>y. map (f y) [0..<w]) [0..<h])) = h * w"
  by (induction h) simp_all

lemma circular_mask_cell:
  "y < h \<Longrightarrow> x < w \<Longrightarrow> cell (circular_mask h w) y x = mask_test h w y x"
  by (simp add: cell_def circular_mask_def concat_rows_nth)

lemma circular_mask_shape:
  "nrows (circular_mask h w) = h" "ncols (circular_mask h w) = w"
  "length (cells (circular_mask h w)) = h * w"
  by (simp_all add: circular_mask_def concat_rows_length)

lemma select_nonempty:
  assumes "i < length gs" "length gs = length bs" "bs ! i"
  shows "map fst (filter snd (zip gs bs)) \<noteq> []"
proof -
  have "(gs ! i, bs ! i) \<in> set (zip gs bs)"
    using assms by (metis in_set_zip fst_conv snd_conv)
  then have "(gs ! i, bs ! i) \<in> set (filter snd (zip gs bs))"
    using assms by simp
  then have "filter snd (zip gs bs) \<noteq> []"
    by (metis empty_iff list.set(1))
  then show ?thesis by simp
qed

lemma np_max_Max: "xs \<noteq> [] \<Longrightarrow> np_max xs = Inr (Max (set xs))"
proof (cases xs)
  case Nil
  assume "xs \<noteq> []"
  with Nil show ?thesis by simp
next
  case (Cons a l)
  have "fold max l a = Max (set (a # l))" by (rule Max.set_eq_fold [symmetric])
  then show ?thesis using Cons by (simp add: np_max_def)
qed

lemma np_min_Min: "xs \<noteq> [] \<Longrightarrow> np_min xs = Inr (Min (set xs))"
proof (cases xs)
  case Nil
  assume "xs \<noteq> []"
  with Nil show ?thesis by simp
next
  case (Cons a l)
  have "fold min l a = Min (set (a # l))" by (rule Min.set_eq_fold [symmetric])
  then show ?thesis using Cons by (simp add: np_min_def)
qed

lemma mask_test_centre: "mask_test s s (s div 2) (s div 2)"
  by (simp add: mask_test_def Let_def zdiv_int)

lemma centre_cell_selected:
  assumes "1 \<le> s" and "nrows g = s" and "ncols g = s" and "well_shaped g"
  shows "s div 2 < s \<and> cell (circular_mask s s) (s div 2) (s div 2) \<and>
         select_mask g (circular_mask s s) \<noteq> [] \<and>
         (\<exists>mx. np_max (select_mask g (circular_mask s s)) = Inr mx) \<and>
         (\<exists>mn. np_min (select_mask g (circular_mask s s)) = Inr mn)"
proof -
  let ?c = "s div 2"
  have c: "?c < s" using assms(1) by simp
  have centre: "cell (circular_mask s s) ?c ?c"
    using c by (simp add: circular_mask_cell mask_test_centre)
  have idx: "?c * s + ?c < s * s"
  proof -
    have "?c * s + ?c < ?c * s + s" using c by simp
    also have "\<dots> = Suc ?c * s" by simp
    also have "\<dots> \<le> s * s" using c by (intro mult_le_mono1) simp
    finally show ?thesis .
  qed
  have len: "length (cells g) = length (cells (circular_mask s s))"
    using assms by (simp add: well_shaped_def circular_mask_shape)
  have "cells (circular_mask s s) ! (?c * s + ?c)"
    using centre by (simp add: cell_def circular_mask_shape)
  then have ne: "select_mask g (circular_mask s s) \<noteq> []"
    unfolding select_mask_def using idx len
    by (intro select_nonempty[where i = "?c * s + ?c"]) (simp_all add: circular_mask_shape)
  show ?thesis using c centre ne by (simp add: np_max_Max np_min_Min)
qed

section \<open>Properties of the normalisation\<close>

lemma select_apply_list:
  "length gs = length bs \<Longrightarrow>
   map fst (filter snd (zip (map2 (\<lambda>v b. v * (if b then 1 else 0)) gs bs) bs)) =
   map fst (filter snd (zip (gs :: rat list) bs))"
  by (induction gs bs rule: list_induct2) simp_all

lemma select_apply_mask:
  "length (cells g) = length (cells m) \<Longrightarrow> select_mask (apply_mask g m) m = select_mask g m"
  by (simp add: select_mask_def apply_mask_def select_apply_list)

lemma put_mask_map:
  "length gs = length bs \<Longrightarrow> vs = map f (map fst (filter snd (zip gs bs))) \<Longrightarrow>
   put_mask gs bs vs = map2 (\<lambda>g b. if b then f g else g) gs bs"
  by (induction gs bs arbitrary: vs rule: list_induct2) simp_all

lemma those_divide:
  "d \<noteq> 0 \<Longrightarrow> those (map (\<lambda>v. np_divide (v - a) d) xs) = Some (map (\<lambda>v. (v - a) / d) xs)"
  by (induction xs) (simp_all add: np_divide_def)

lemma select_set:
  "length gs = length bs \<Longrightarrow>
   set (map fst (filter snd (zip gs bs))) = {gs ! i | i. i < length gs \<and> bs ! i}"
proof (induction gs bs rule: list_induct2)
  case Nil
  then show ?case by simp
next
  case (Cons g gs b bs)
  have split: "{(g # gs) ! i | i. i < length (g # gs) \<and> (b # bs) ! i} =
        (if b then {g} else {}) \<union> {gs ! i | i. i < length gs \<and> bs ! i}"
  proof (intro set_eqI iffI)
    fix v assume "v \<in> {(g # gs) ! i | i. i < length (g # gs) \<and> (b # bs) ! i}"
    then obtain i where i: "v = (g # gs) ! i" "i < length (g # gs)" "(b # bs) ! i" by blast
    show "v \<in> (if b then {g} else {}) \<union> {gs ! i | i. i < length gs \<and> bs ! i}"
    proof (cases i)
      case 0
      then show ?thesis using i by simp
    next
      case (Suc j)
      then show ?thesis using i by auto
    qed
  next
    fix v assume "v \<in> (if b then {g} else {}) \<union> {gs ! i | i. i < length gs \<and> bs ! i}"
    then consider "b" "v = g" | j where "v = gs ! j" "j < length gs" "bs ! j"
      by (auto split: if_splits)
    then show "v \<in> {(g # gs) ! i | i. i < length (g # gs) \<and> (b # bs) ! i}"
    proof cases
      case 1
      then have "v = (g # gs) ! 0 \<and> 0 < length (g # gs) \<and> (b # bs) ! 0" by simp
      then show ?thesis by blast
    next
      case 2
      then have "v = (g # gs) ! Suc j \<and> Suc j < length (g # gs) \<and> (b # bs) ! Suc j" by simp
      then show ?thesis by blast
    qed
  qed
  have "set (map fst (filter snd (zip (g # gs) (b # bs)))) =
        (if b then {g} else {}) \<union> set (map fst (filter snd (zip gs bs)))"
    by simp
  then show ?case unfolding split Cons.IH .
qed

lemma put_mask_length: "length (put_mask gs bs vs) = length gs"
  by (induction gs bs vs rule: put_mask.induct) (auto split: list.splits)

lemma normalize_brain_shape:
  assumes "normalize_brain g m = Inr g'"
  shows "nrows g' = nrows g \<and> ncols g' = ncols g \<and> length (cells g') = length (cells g)"
  using assms unfolding normalize_brain_def Let_def
  by (auto split: sum.splits if_splits option.splits simp: put_mask_length)



lemma normalize_brain_constant:
  assumes "select_mask g m \<noteq> []"
    and "Max (set (select_mask g m)) = Min (set (select_mask g m))"
  shows "normalize_brain g m = Inr g"
  using assms unfolding normalize_brain_def Let_def
  by (simp add: np_max_Max np_min_Min)

section \<open>Properties of the percentile threshold\<close>

lemma sorted_count_above:
  assumes "sorted s" and "lo < length s"
  shows "length (filter (\<lambda>v. s ! lo < v) s) \<le> length s - Suc lo"
proof -
  have low: "filter (\<lambda>v. s ! lo < v) (take (Suc lo) s) = []"
  proof -
    have "\<not> s ! lo < v" if "v \<in> set (take (Suc lo) s)" for v
    proof -
      from that obtain i where i: "i < length (take (Suc lo) s)" "v = take (Suc lo) s ! i"
        by (metis in_set_conv_nth)
      then have "i \<le> lo" by simp
      then have "s ! i \<le> s ! lo" using assms by (simp add: sorted_nth_mono)
      then show ?thesis using i by simp
    qed
    then show ?thesis by (simp add: filter_empty_conv)
  qed
  have "filter (\<lambda>v. s ! lo < v) s =
        filter (\<lambda>v. s ! lo < v) (take (Suc lo) s) @ filter (\<lambda>v. s ! lo < v) (drop (Suc lo) s)"
    by (metis append_take_drop_id filter_append)
  then have "length (filter (\<lambda>v. s ! lo < v) s) = length (filter (\<lambda>v. s ! lo < v) (drop (Suc lo) s))"
    using low by simp
  also have "\<dots> \<le> length (drop (Suc lo) s)" by (rule length_filter_le)
  finally show ?thesis by simp
qed

lemma count_filter_mono:
  "(\<And>v. P v \<Longrightarrow> Q v) \<Longrightarrow> length (filter P xs) \<le> length (filter Q xs)"
  by (induction xs) auto

lemma count_ge_split:
  "length (filter (\<lambda>v. (t::rat) \<le> v) xs) =
   length (filter (\<lambda>v. t < v) xs) + length (filter (\<lambda>v. v = t) xs)"
  by (induction xs) auto

lemma percentile80_lower:
  assumes "xs \<noteq> []"
  shows "sort xs ! ((80 * (length xs - 1)) div 100) \<le> np_percentile xs 80"
proof -
  let ?s = "sort xs" and ?n = "length xs"
  let ?lo = "(80 * (?n - 1)) div 100"
  let ?hi = "min (?lo + 1) (?n - 1)"
  obtain k where n: "?n = Suc k" using assms by (cases xs) simp_all
  have lo: "?lo \<le> ?n - 1" by simp
  have "?lo \<le> ?hi" using lo by simp
  moreover have "?hi < length ?s" by (simp add: n)
  ultimately have "?s ! ?lo \<le> ?s ! ?hi" by (simp add: sorted_nth_mono)
  then have "0 \<le> (of_nat ((80 * (?n - 1)) mod 100) / 100) * (?s ! ?hi - ?s ! ?lo)"
    by simp
  then show ?thesis by (simp add: np_percentile_def Let_def)
qed

lemma count_above_percentile80:
  assumes "xs \<noteq> []"
  shows "length (filter (\<lambda>v. np_percentile xs 80 < v) xs) \<le> (length xs + 3) div 5"
proof -
  let ?s = "sort xs" and ?n = "length xs"
  let ?lo = "(80 * (?n - 1)) div 100"
  let ?t = "np_percentile xs 80"
  obtain k where n: "?n = Suc k" using assms by (cases xs) simp_all
  have lo: "?lo < length ?s" by (simp add: n)
  have "length (filter (\<lambda>v. ?t < v) xs) = length (filter (\<lambda>v. ?t < v) ?s)"
    by (simp add: filter_sort)
  also have "\<dots> \<le> length (filter (\<lambda>v. ?s ! ?lo < v) ?s)"
    using percentile80_lower[OF assms] by (intro count_filter_mono) simp
  also have "\<dots> \<le> length ?s - Suc ?lo"
    using lo by (intro sorted_count_above) simp_all
  also have "\<dots> \<le> (?n + 3) div 5" by (simp add: n)
  finally show ?thesis .
qed

lemma select_map_cells:
  "select_mask (NDArray h w (map f (cells g))) m = map f (select_mask g m)"
proof -
  have "map fst (filter snd (zip (map f gs) bs)) = map f (map fst (filter snd (zip gs bs)))"
    for gs bs
  proof (induction gs arbitrary: bs)
    case Nil
    then show ?case by simp
  next
    case (Cons g gs)
    then show ?case by (cases bs) simp_all
  qed
  then show ?thesis by (simp add: select_mask_def)
qed

lemma percentile_threshold_shape:
  "nrows (percentile_threshold g m) = nrows g" "ncols (percentile_threshold g m) = ncols g"
  "length (cells (percentile_threshold g m)) = length (cells g)"
  by (simp_all add: percentile_threshold_def Let_def)

lemma percentile_constant:
  assumes "0 < k"
  shows "np_percentile (replicate k c) 80 = c"
proof -
  have lo: "(80 * (k - 1)) div 100 < k" using assms by simp
  have hi: "min ((80 * (k - 1)) div 100 + 1) (k - 1) < k" using assms by simp
  show ?thesis
    using lo hi by (simp add: np_percentile_def Let_def sorted_sort_id)
qed

section \<open>Shapes along the pipeline\<close>

lemma apply_mask_shape:
  "nrows (apply_mask g m) = nrows g" "ncols (apply_mask g m) = ncols g"
  "length (cells (apply_mask g m)) = min (length (cells g)) (length (cells m))"
  by (simp_all add: apply_mask_def)

lemma libs_ok_resize:
  assumes "libs_ok L" and "cv_resize L a (w, h) = Inr r"
  shows "nrows r = h" "ncols r = w" "length (cells r) = h * w" "well_shaped r"
proof -
  from assms have "nrows r = h \<and> ncols r = w \<and> well_shaped r"
    unfolding libs_ok_def by blast
  then show "nrows r = h" "ncols r = w" "length (cells r) = h * w" "well_shaped r"
    by (simp_all add: well_shaped_def)
qed

lemma libs_ok_blur:
  assumes "libs_ok L"
  shows "nrows (cv_gaussian_blur L a) = nrows a" "ncols (cv_gaussian_blur L a) = ncols a"
    "length (cells (cv_gaussian_blur L a)) = length (cells a)"
  using assms by (simp_all add: libs_ok_def)

lemma libs_ok_same_size:
  assumes "libs_ok L" and "nrows a = h" and "ncols a = w"
  shows "cv_resize_rgb L a (w, h) = a"
  using assms by (auto simp: libs_ok_def)

lemma squeeze_plain_batch:
  "plain_batch t \<Longrightarrow> np_squeeze (channel_max_abs t) = Matrix (channel_max_abs t)"
  by (simp add: plain_batch_def np_squeeze_def channel_max_abs_def)

lemma resize_returns:
  assumes "libs_ok L" and "plain_batch t" and "0 < w" and "0 < h"
  shows "\<exists>r. cv_resize L (np_squeeze (channel_max_abs t)) (w, h) = Inr r"
proof -
  let ?m = "channel_max_abs t"
  have "well_shaped ?m \<and> 0 < nrows ?m \<and> 0 < ncols ?m \<and> 0 < w \<and> 0 < h"
    using assms(2-4) by (simp add: plain_batch_def well_shaped_def channel_max_abs_def)
  then have "\<exists>r. cv_resize L (Matrix ?m) (w, h) = Inr r"
    using assms(1) unfolding libs_ok_def by blast
  then show ?thesis by (simp only: squeeze_plain_batch[OF assms(2)])
qed

lemma thresholded_map_Inr:
  assumes "thresholded_map L gradients dsize = Inr t"
  shows "\<exists>r n. cv_resize L (np_squeeze (channel_max_abs gradients)) dsize = Inr r \<and>
           normalize_brain (apply_mask r (circular_mask (nrows r) (ncols r)))
             (circular_mask (nrows r) (ncols r)) = Inr n \<and>
           t = percentile_threshold n (circular_mask (nrows r) (ncols r))"
  using assms unfolding thresholded_map_def Let_def by (auto split: sum.splits)

lemma thresholded_map_shape:
  assumes "libs_ok L" and "thresholded_map L gradients (w, h) = Inr t"
  shows "nrows t = h \<and> ncols t = w \<and> length (cells t) = h * w"
proof -
  from thresholded_map_Inr[OF assms(2)] obtain r n where
    r: "cv_resize L (np_squeeze (channel_max_abs gradients)) (w, h) = Inr r" and
    n: "normalize_brain (apply_mask r (circular_mask (nrows r) (ncols r)))
             (circular_mask (nrows r) (ncols r)) = Inr n" and
    t: "t = percentile_threshold n (circular_mask (nrows r) (ncols r))"
    by blast
  from normalize_brain_shape[OF n] show ?thesis
    by (simp add: t percentile_threshold_shape apply_mask_shape libs_ok_resize[OF assms(1) r]
        circular_mask_shape)
qed


lemma heatmap_cells:
  assumes "libs_ok L" and "saliency_heatmap L gradients (w, h) = Inr hm"
  shows "\<exists>t. thresholded_map L gradients (w, h) = Inr t \<and>
           hm = cvt_bgr2rgb (apply_color_map L (cv_gaussian_blur L t)) \<and>
           nrows hm = h \<and> ncols hm = w \<and> length (cells hm) = h * w \<and>
           (\<forall>px \<in> set (cells hm). length px = 3)"
proof -
  from assms(2) obtain t where t: "thresholded_map L gradients (w, h) = Inr t"
    and hm: "hm = cv_resize_rgb L (cvt_bgr2rgb (apply_color_map L (cv_gaussian_blur L t))) (w, h)"
    unfolding saliency_heatmap_def by (auto split: sum.splits)
  let ?c = "cvt_bgr2rgb (apply_color_map L (cv_gaussian_blur L t))"
  from thresholded_map_shape[OF assms(1) t]
  have sh: "nrows t = h" "ncols t = w" "length (cells t) = h * w" by simp_all
  have shc: "nrows ?c = h" "ncols ?c = w" "length (cells ?c) = h * w"
    by (simp_all add: cvt_bgr2rgb_def apply_color_map_def libs_ok_blur[OF assms(1)] sh)
  have same: "hm = ?c" unfolding hm by (rule libs_ok_same_size[OF assms(1) shc(1) shc(2)])
  have three: "\<forall>px \<in> set (cells ?c). length px = 3"
    by (auto simp: cvt_bgr2rgb_def apply_color_map_def split: prod.splits)
  show ?thesis using t same shc three by auto
qed

section \<open>Rounding\<close>

lemma round_half_even_error: "\<bar>of_int (round_half_even x) - x\<bar> \<le> 1 / 2"
proof -
  have "of_int \<lfloor>x\<rfloor> \<le> x" "x < of_int \<lfloor>x\<rfloor> + 1" by linarith+
  then show ?thesis
    by (auto simp: round_half_even_def Let_def abs_le_iff)
qed

lemma round_half_even_nonneg: "0 \<le> x \<Longrightarrow> 0 \<le> round_half_even x"
  by (auto simp: round_half_even_def Let_def)

lemma binade_bounds:
  assumes "0 < x"
  shows "2 powi (binade x) \<le> x \<and> x < 2 powi (binade x + 1)"
proof (cases "1 \<le> x")
  case True
  define n where "n = nat \<lfloor>x\<rfloor>"
  have n: "0 < n" using True by (simp add: n_def)
  have nx: "of_nat n \<le> x" "x < of_nat n + 1"
    using True unfolding n_def by (simp_all add: of_nat_nat) linarith+
  from floorlog_bounds[of n 2] n have b: "2 ^ (floorlog 2 n - 1) \<le> n" "n < 2 ^ floorlog 2 n"
    by simp_all
  have pos: "0 < floorlog 2 n" using n by (simp add: floorlog_def)
  have e: "binade x = int (floorlog 2 n - 1)" using True pos by (simp add: binade_def n_def)
  have e1: "binade x + 1 = int (floorlog 2 n)" using e pos by simp
  have "(2::rat) ^ (floorlog 2 n - 1) \<le> of_nat n"
    using b(1) by (metis of_nat_le_iff of_nat_numeral of_nat_power)
  from order_trans[OF this nx(1)] have lo: "2 powi (binade x) \<le> x" unfolding e by simp
  have "n + 1 \<le> 2 ^ floorlog 2 n" using b(2) by simp
  then have "(of_nat (n + 1) :: rat) \<le> 2 ^ floorlog 2 n"
    by (metis of_nat_le_iff of_nat_numeral of_nat_power)
  then have "of_nat n + 1 \<le> (2::rat) ^ floorlog 2 n" by simp
  from less_le_trans[OF nx(2) this] have hi: "x < 2 powi (binade x + 1)" unfolding e1 by simp
  show ?thesis using lo hi by simp
next
  case False
  then have x1: "x < 1" by simp
  define n where "n = nat (\<lceil>1 / x\<rceil> - 1)"
  have inv: "1 < 1 / x" using assms x1 by simp
  then have c2: "2 \<le> \<lceil>1 / x\<rceil>" by linarith
  then have n: "0 < n" by (simp add: n_def)
  have nx: "of_nat n < 1 / x" "1 / x \<le> of_nat n + 1"
    using c2 unfolding n_def by (simp_all add: of_nat_nat) linarith+
  from floorlog_bounds[of n 2] n have b: "2 ^ (floorlog 2 n - 1) \<le> n" "n < 2 ^ floorlog 2 n"
    by simp_all
  have pos: "0 < floorlog 2 n" using n by (simp add: floorlog_def)
  have e: "binade x = - int (floorlog 2 n)" using False by (simp add: binade_def n_def)
  have e1: "binade x + 1 = - int (floorlog 2 n - 1)" using e pos by simp
  have "n + 1 \<le> 2 ^ floorlog 2 n" using b(2) by simp
  then have "(of_nat (n + 1) :: rat) \<le> 2 ^ floorlog 2 n"
    by (metis of_nat_le_iff of_nat_numeral of_nat_power)
  then have "of_nat n + 1 \<le> (2::rat) ^ floorlog 2 n" by simp
  from order_trans[OF nx(2) this] have "1 / x \<le> 2 ^ floorlog 2 n" .
  then have "1 \<le> 2 ^ floorlog 2 n * x" using assms by (simp add: field_simps)
  then have "1 / 2 ^ floorlog 2 n \<le> x" by (simp add: field_simps)
  then have lo: "2 powi (binade x) \<le> x" unfolding e by (simp add: power_int_minus field_simps)
  have "(2::rat) ^ (floorlog 2 n - 1) \<le> of_nat n"
    using b(1) by (metis of_nat_le_iff of_nat_numeral of_nat_power)
  from le_less_trans[OF this nx(1)] have "2 ^ (floorlog 2 n - 1) < 1 / x" .
  then have "2 ^ (floorlog 2 n - 1) * x < 1" using assms by (simp add: field_simps)
  then have "x < 1 / 2 ^ (floorlog 2 n - 1)" by (simp add: field_simps)
  then have hi: "x < 2 powi (binade x + 1)" unfolding e1 by (simp add: power_int_minus field_simps)
  show ?thesis using lo hi by simp
qed

lemma ieee_round_nonneg: "0 \<le> x \<Longrightarrow> 0 \<le> ieee_round p x"
proof -
  assume x: "0 \<le> x"
  have "0 \<le> round_half_even (\<bar>x\<bar> / 2 powi (binade \<bar>x\<bar> - int p + 1))"
    by (intro round_half_even_nonneg) simp
  then show ?thesis using x by (simp add: ieee_round_def Let_def)
qed

lemma ieee_round_error:
  assumes "0 \<le> x"
  shows "\<bar>ieee_round p x - x\<bar> \<le> x / 2 ^ p"
proof (cases "x = 0")
  case True
  then show ?thesis by (simp add: ieee_round_def)
next
  case False
  then have x: "0 < x" using assms by simp
  define ulp :: rat where "ulp = 2 powi (binade x - int p + 1)"
  have ulp: "0 < ulp" by (simp add: ulp_def)
  have r: "ieee_round p x = of_int (round_half_even (x / ulp)) * ulp"
    using x by (simp add: ieee_round_def Let_def ulp_def)
  have "\<bar>of_int (round_half_even (x / ulp)) - x / ulp\<bar> \<le> 1 / 2"
    by (rule round_half_even_error)
  then have "\<bar>of_int (round_half_even (x / ulp)) - x / ulp\<bar> * ulp \<le> 1 / 2 * ulp"
    using ulp by (intro mult_right_mono) simp_all
  then have "\<bar>(of_int (round_half_even (x / ulp)) - x / ulp) * ulp\<bar> \<le> ulp / 2"
    using ulp by (simp add: abs_mult)
  then have e1: "\<bar>ieee_round p x - x\<bar> \<le> ulp / 2"
    using ulp unfolding r by (simp add: left_diff_distrib)
  have "ulp = 2 powi (binade x) * 2 / 2 ^ p"
    unfolding ulp_def by (simp add: power_int_add power_int_diff)
  then have "ulp / 2 = 2 powi (binade x) / 2 ^ p" by simp
  also have "\<dots> \<le> x / 2 ^ p"
    using binade_bounds[OF x] by (intro divide_right_mono) simp_all
  finally show ?thesis using e1 by linarith
qed

lemma float_seven_tenths: "float64 (7 / 10) = 3152519739159347 / 4503599627370496"
  by code_simp

lemma float_three_tenths: "float32 (float64 (3 / 10)) = 5033165 / 16777216"
  by code_simp

lemma float32_error: "0 \<le> x \<Longrightarrow> \<bar>float32 x - x\<bar> \<le> x / 16777216"
  using ieee_round_error[of x 24] by (simp add: float32_def)

lemma float64_error: "0 \<le> x \<Longrightarrow> \<bar>float64 x - x\<bar> \<le> x / 16777216"
proof -
  assume x: "0 \<le> x"
  have "x / 2 ^ 53 \<le> x / 2 ^ 24"
    using x by (intro divide_left_mono) simp_all
  then show ?thesis using ieee_round_error[OF x, of 53] by (simp add: float64_def)
qed

lemma float32_nonneg: "0 \<le> x \<Longrightarrow> 0 \<le> float32 x"
  by (simp add: float32_def ieee_round_nonneg)

lemma float64_nonneg: "0 \<le> x \<Longrightarrow> 0 \<le> float64 x"
  by (simp add: float64_def ieee_round_nonneg)

lemma byte_bound: "(of_nat (unat (v :: u8)) :: rat) \<le> 255"
proof -
  have "unat v < 2 ^ LENGTH(8)" by (rule unsigned_less)
  then have "unat v \<le> 255" by simp
  then show ?thesis by (metis of_nat_le_iff of_nat_numeral)
qed

lemma float_blend_error:
  "0 \<le> float_blend a b \<and> \<bar>float_blend a b - spec_blend a b\<bar> \<le> 1 / 1000"
proof -
  define A :: rat where "A = of_nat (unat a)"
  define B :: rat where "B = of_nat (unat b)"
  have A: "0 \<le> A" "A \<le> 255" unfolding A_def by (simp del: of_nat_unat, rule byte_bound)
  have B: "0 \<le> B" "B \<le> 255" unfolding B_def by (simp del: of_nat_unat, rule byte_bound)
  define x1 :: rat where "x1 = B * (3152519739159347 / 4503599627370496)"
  define x2 :: rat where "x2 = A * (5033165 / 16777216)"
  define p1 where "p1 = float64 x1"
  define p2 where "p2 = float32 x2"
  have x1: "0 \<le> x1" "x1 \<le> 7 / 10 * B" "7 / 10 * B - 1 / 1000000 \<le> x1"
    using B by (simp_all add: x1_def)
  have x2: "0 \<le> x2" "3 / 10 * A \<le> x2" "x2 \<le> 3 / 10 * A + 1 / 100000"
    using A by (simp_all add: x2_def)
  have p1: "0 \<le> p1" "\<bar>p1 - x1\<bar> \<le> x1 / 16777216"
    unfolding p1_def by (rule float64_nonneg[OF x1(1)], rule float64_error[OF x1(1)])
  have p2: "0 \<le> p2" "\<bar>p2 - x2\<bar> \<le> x2 / 16777216"
    unfolding p2_def by (rule float32_nonneg[OF x2(1)], rule float32_error[OF x2(1)])
  have s0: "0 \<le> p1 + p2" using p1 p2 by simp
  have s: "0 \<le> float64 (p1 + p2)" "\<bar>float64 (p1 + p2) - (p1 + p2)\<bar> \<le> (p1 + p2) / 16777216"
    by (rule float64_nonneg[OF s0], rule float64_error[OF s0])
  have fb: "float_blend a b = float64 (p1 + p2)"
    unfolding float_blend_def float_seven_tenths float_three_tenths p1_def p2_def x1_def x2_def
      A_def B_def by (rule refl)
  have sb: "spec_blend a b = 3 / 10 * A + 7 / 10 * B"
    unfolding spec_blend_def A_def B_def by (rule refl)
  have e1: "\<bar>p1 - x1\<bar> \<le> 1 / 50000" using p1(2) x1(2) B(2) by linarith
  have e2: "\<bar>p2 - x2\<bar> \<le> 1 / 100000" using p2(2) x2(3) A(2) by linarith
  have "p1 + p2 \<le> 256" using e1 e2 x1(2) x2(3) A(2) B(2) by linarith
  then have "(p1 + p2) / 16777216 \<le> 256 / 16777216" by (intro divide_right_mono) simp_all
  then have e3: "\<bar>float64 (p1 + p2) - (p1 + p2)\<bar> \<le> 1 / 50000" using s(2) by linarith
  have "\<bar>float64 (p1 + p2) - (3 / 10 * A + 7 / 10 * B)\<bar> \<le> 1 / 1000"
    using e1 e2 e3 x1(2,3) x2(2,3) by linarith
  then show ?thesis unfolding fb sb using s(1) by simp
qed

lemma float_blend_range:
  "0 \<le> float_blend a b \<and> float_blend a b < 256 \<and>
   uint (np_uint8 (float_blend a b)) = \<lfloor>float_blend a b\<rfloor> \<and>
   uint (np_uint8 (float_blend a b)) = spec_clip_cast (float_blend a b)"
proof -
  define v where "v = float_blend a b"
  define e where "e = spec_blend a b"
  have err: "0 \<le> v" "\<bar>v - e\<bar> \<le> 1 / 1000"
    using float_blend_error[of a b] by (simp_all add: v_def e_def)
  have "e \<le> 3 / 10 * 255 + 7 / 10 * 255"
    unfolding e_def spec_blend_def using byte_bound[of a] byte_bound[of b] by linarith
  then have hi: "v < 256" using err(2) by linarith
  have f0: "0 \<le> \<lfloor>v\<rfloor>" using err(1) by simp
  have f1: "\<lfloor>v\<rfloor> < 256" using hi by (simp add: floor_less_iff)
  have "uint (word_of_int \<lfloor>v\<rfloor> :: u8) = \<lfloor>v\<rfloor>"
    using f0 f1 by (simp add: uint_word_of_int take_bit_int_eq_self)
  then have cast: "uint (np_uint8 v) = \<lfloor>v\<rfloor>" using err(1) by (simp add: np_uint8_def)
  have clip: "spec_clip_cast v = \<lfloor>v\<rfloor>"
  proof (cases "v \<le> 255")
    case True
    then show ?thesis using err(1) by (simp add: spec_clip_cast_def)
  next
    case False
    then have "255 < v" by simp
    then have "\<lfloor>v\<rfloor> = 255" using hi by linarith
    then show ?thesis using False by (simp add: spec_clip_cast_def)
  qed
  show ?thesis using err(1) hi cast clip unfolding v_def by simp
qed

lemma float_blend_floor:
  "(\<lfloor>float_blend a b\<rfloor> = \<lfloor>spec_blend a b\<rfloor> \<or> \<lfloor>float_blend a b\<rfloor> = \<lfloor>spec_blend a b\<rfloor> - 1) \<and>
   (\<not> 10 dvd (3 * unat a + 7 * unat b) \<longrightarrow> \<lfloor>float_blend a b\<rfloor> = \<lfloor>spec_blend a b\<rfloor>)"
proof -
  define v where "v = float_blend a b"
  define n where "n = 3 * unat a + 7 * unat b"
  have e: "spec_blend a b = of_nat n / 10"
    unfolding spec_blend_def n_def by (simp del: of_nat_unat)
  have err: "\<bar>v - of_nat n / 10\<bar> \<le> 1 / 1000"
    using float_blend_error[of a b] unfolding v_def e by simp
  define q where "q = n div 10"
  define r where "r = n mod 10"
  have n: "n = 10 * q + r" "r < 10" by (simp_all add: q_def r_def)
  have nr: "(of_nat n :: rat) / 10 = of_nat q + of_nat r / 10" by (simp add: n(1))
  have "r \<le> 9" using n(2) by simp
  then have r9: "(of_nat r :: rat) \<le> 9" by (metis of_nat_le_iff of_nat_numeral)
  have r0: "(0::rat) \<le> of_nat r" by simp
  have fl: "\<lfloor>(of_nat n :: rat) / 10\<rfloor> = int q"
    unfolding nr using r0 r9 by (intro floor_unique) simp_all
  have lo: "of_nat q - 1 \<le> v" using err nr r0 by linarith
  have hi: "v < of_nat q + 1" using err nr r9 by linarith
  have "\<lfloor>v\<rfloor> = int q \<or> \<lfloor>v\<rfloor> = int q - 1"
  proof (cases "of_nat q \<le> v")
    case True
    then have "\<lfloor>v\<rfloor> = int q" using hi by (intro floor_unique) simp_all
    then show ?thesis by simp
  next
    case False
    then have "\<lfloor>v\<rfloor> = int q - 1" using lo by (intro floor_unique) simp_all
    then show ?thesis by simp
  qed
  moreover have "\<lfloor>v\<rfloor> = int q" if "\<not> 10 dvd n"
  proof -
    have "r \<noteq> 0" using that by (auto simp: r_def dvd_eq_mod_eq_0)
    then have "1 \<le> r" by simp
    then have "(1::rat) \<le> of_nat r" by (metis of_nat_1 of_nat_le_iff)
    then have "of_nat q \<le> v" using err nr by linarith
    then show ?thesis using hi by (intro floor_unique) simp_all
  qed
  moreover have fe: "\<lfloor>spec_blend a b\<rfloor> = int q" unfolding e by (rule fl)
  ultimately have "(\<lfloor>v\<rfloor> = \<lfloor>spec_blend a b\<rfloor> \<or> \<lfloor>v\<rfloor> = \<lfloor>spec_blend a b\<rfloor> - 1) \<and>
      (\<not> 10 dvd n \<longrightarrow> \<lfloor>v\<rfloor> = \<lfloor>spec_blend a b\<rfloor>)"
    by simp
  then show ?thesis unfolding v_def n_def .
qed

lemma spec_blend_range:
  "0 \<le> spec_blend a b \<and> spec_blend a b \<le> 255 \<and> spec_clip_cast (spec_blend a b) = \<lfloor>spec_blend a b\<rfloor>"
proof -
  have lo: "0 \<le> spec_blend a b" by (simp add: spec_blend_def del: of_nat_unat)
  have hi: "spec_blend a b \<le> 255"
    unfolding spec_blend_def using byte_bound[of a] byte_bound[of b] by linarith
  show ?thesis using lo hi by (simp add: spec_clip_cast_def)
qed

lemma blend_byte:
  "uint (np_uint8 (float_blend a b)) = \<lfloor>float_blend a b\<rfloor> \<and>
   0 \<le> float_blend a b \<and>
   float_blend a b < 256 \<and>
   uint (np_uint8 (float_blend a b)) = spec_clip_cast (float_blend a b) \<and>
   \<bar>float_blend a b - spec_blend a b\<bar> \<le> 1 / 1000 \<and>
   (uint (np_uint8 (float_blend a b)) = spec_clip_cast (spec_blend a b) \<or>
    uint (np_uint8 (float_blend a b)) = spec_clip_cast (spec_blend a b) - 1) \<and>
   (\<not> 10 dvd 3 * unat a + 7 * unat b \<longrightarrow>
    uint (np_uint8 (float_blend a b)) = spec_clip_cast (spec_blend a b))"
proof -
  note r = float_blend_range[of a b]
  note e = float_blend_error[of a b]
  note f = float_blend_floor[of a b]
  note s = spec_blend_range[of a b]
  have u: "uint (np_uint8 (float_blend a b)) = \<lfloor>float_blend a b\<rfloor>" using r by simp
  have sc: "spec_clip_cast (spec_blend a b) = \<lfloor>spec_blend a b\<rfloor>" using s by simp
  show ?thesis unfolding u sc using r e f by simp
qed

section \<open>The composite\<close>

lemma map_nth_upt_zip:
  assumes "length xs = n" and "length ys = n"
  shows "map (\<lambda>i. f (xs ! i) (ys ! i)) [0..<n] = map2 f xs ys"
  using assms by (intro nth_equalityI) simp_all

lemma broadcast_index:
  assumes "i < h * w"
  shows "(if h = 1 then 0 else i div w) * w + (if w = 1 then 0 else i mod w) = (i::nat)"
proof -
  have "(if h = 1 then 0 else i div w) = i div w" using assms by auto
  moreover have "(if w = 1 then 0 else i mod w) = i mod w" by auto
  ultimately show ?thesis by simp
qed

lemma np_add_same_shape:
  assumes "nrows a = nrows b" and "ncols a = ncols b" and "well_shaped a" and "well_shaped b"
  shows "np_add a b =
     Inr (NDArray (nrows a) (ncols a)
            (map2 (map2 (\<lambda>x y. float64 (x + y))) (cells a) (cells b)))"
proof -
  let ?h = "nrows a" and ?w = "ncols a"
  let ?f = "map2 (\<lambda>x y. float64 (x + y))"
  have ca: "cell a (if nrows a = 1 then 0 else i div ?w) (if ncols a = 1 then 0 else i mod ?w) =
        cells a ! i" if "i < ?h * ?w" for i
    unfolding cell_def broadcast_index[OF that] by (rule refl)
  have cb: "cell b (if nrows b = 1 then 0 else i div ?w) (if ncols b = 1 then 0 else i mod ?w) =
        cells b ! i" if "i < ?h * ?w" for i
    unfolding cell_def assms(1)[symmetric] assms(2)[symmetric] broadcast_index[OF that]
    by (rule refl)
  have idx: "map (\<lambda>i. ?f
          (cell a (if nrows a = 1 then 0 else i div ?w) (if ncols a = 1 then 0 else i mod ?w))
          (cell b (if nrows b = 1 then 0 else i div ?w) (if ncols b = 1 then 0 else i mod ?w)))
        [0..<?h * ?w] =
      map (\<lambda>i. ?f (cells a ! i) (cells b ! i)) [0..<?h * ?w]"
  proof (rule map_cong[OF refl])
    fix i assume "i \<in> set [0..<?h * ?w]"
    then have i: "i < ?h * ?w" by simp
    show "?f
          (cell a (if nrows a = 1 then 0 else i div ?w) (if ncols a = 1 then 0 else i mod ?w))
          (cell b (if nrows b = 1 then 0 else i div ?w) (if ncols b = 1 then 0 else i mod ?w)) =
        ?f (cells a ! i) (cells b ! i)"
      unfolding ca[OF i] cb[OF i] by (rule refl)
  qed
  have "map (\<lambda>i. ?f (cells a ! i) (cells b ! i)) [0..<?h * ?w] =
        map2 ?f (cells a) (cells b)"
    using assms by (intro map_nth_upt_zip) (simp_all add: well_shaped_def)
  with idx have cells_eq: "map (\<lambda>i. ?f
          (cell a (if nrows a = 1 then 0 else i div ?w) (if ncols a = 1 then 0 else i mod ?w))
          (cell b (if nrows b = 1 then 0 else i div ?w) (if ncols b = 1 then 0 else i mod ?w)))
        [0..<?h * ?w] = map2 ?f (cells a) (cells b)"
    by (rule trans)
  have dims: "broadcast_dim (nrows a) (nrows b) = Some ?h" "broadcast_dim (ncols a) (ncols b) = Some ?w"
    using assms(1,2) by (simp_all add: broadcast_dim_def)
  show ?thesis unfolding np_add_def dims by (simp only: prod.case option.case cells_eq)
qed

lemma blend_pixel_channels:
  "blend_pixel hpx ppx =
     map np_uint8
       (map2 (\<lambda>x y. float64 (x + y))
          (map (\<lambda>v. float64 (of_nat (unat v) * float64 (7 / 10))) hpx)
          (map (\<lambda>v. float32 (of_nat (unat v) * float32 (float64 (3 / 10)))) (channels ppx)))"
proof -
  have "map2 (\<lambda>h v. f (F h) (G v)) xs ys = map2 f (map F xs) (map G ys)"
    for f :: "rat \<Rightarrow> rat \<Rightarrow> rat" and F G :: "u8 \<Rightarrow> rat" and xs ys
    by (induction xs ys rule: list_induct2') simp_all
  then show ?thesis unfolding blend_pixel_def float_blend_def by (intro arg_cong[where f = "map np_uint8"])
qed

lemma superimpose_same_shape:
  assumes "nrows hm = nrows p" and "ncols hm = ncols p" and "well_shaped hm" and "well_shaped p"
  shows "superimpose hm p =
     Inr (NDArray (nrows p) (ncols p) (map2 blend_pixel (cells hm) (cells p)))"
proof -
  let ?a = "mul_float64 hm (7 / 10)" and ?b = "mul_float32 (img_to_array p) (3 / 10)"
  let ?f = "map2 (\<lambda>x y. float64 (x + y))"
  have sh: "nrows ?a = nrows ?b" "ncols ?a = ncols ?b" "well_shaped ?a" "well_shaped ?b"
    using assms by (simp_all add: mul_float64_def mul_float32_def img_to_array_def well_shaped_def)
  have cellsa: "cells ?a = map (map (\<lambda>v. float64 (of_nat (unat v) * float64 (7 / 10)))) (cells hm)"
    by (simp add: mul_float64_def)
  have cellsb: "cells ?b =
      map (\<lambda>px. map (\<lambda>v. float32 (of_nat (unat v) * float32 (float64 (3 / 10)))) (channels px))
        (cells p)"
    by (simp add: mul_float32_def img_to_array_def comp_def)
  have z: "map (map np_uint8) (map2 ?f (map f xs) (map g ys)) =
        map2 (\<lambda>x y. map np_uint8 (?f (f x) (g y))) xs ys"
    for f g and xs :: "u8 list list" and ys :: "(u8 \<times> u8 \<times> u8) list"
    by (induction xs ys rule: list_induct2') simp_all
  have dims: "nrows ?a = nrows p" "ncols ?a = ncols p"
    using assms by (simp_all add: mul_float64_def)
  have blend: "map (map np_uint8) (map2 ?f (cells ?a) (cells ?b)) =
      map2 blend_pixel (cells hm) (cells p)"
    unfolding cellsa cellsb z by (simp only: blend_pixel_channels)
  have "superimpose hm p =
      Inr (astype_uint8 (NDArray (nrows ?a) (ncols ?a) (map2 ?f (cells ?a) (cells ?b))))"
    unfolding superimpose_def Let_def np_add_same_shape[OF sh] by simp
  also have "astype_uint8 (NDArray (nrows ?a) (ncols ?a) (map2 ?f (cells ?a) (cells ?b))) =
      NDArray (nrows p) (ncols p) (map (map np_uint8) (map2 ?f (cells ?a) (cells ?b)))"
    unfolding astype_uint8_def dims by simp
  finally show ?thesis unfolding blend .
qed

lemma generate_Inr:
  assumes "generate_saliency_map L E model t ci sz = (calls, Inr composite)"
  shows "\<exists>k hm. tf_column (forward model t) ci = Inr k \<and>
           saliency_heatmap L (tape_gradient model t k) sz = Inr hm \<and>
           superimpose hm (img E) = Inr composite \<and>
           save_and_return L E composite = Inr composite \<and>
           calls = [ModelForward, TapeGradient]"
proof -
  from assms obtain k hm c where
    k: "tf_column (forward model t) ci = Inr k" and
    hm: "saliency_heatmap L (tape_gradient model t k) sz = Inr hm" and
    c: "superimpose hm (img E) = Inr c" and
    sv: "save_and_return L E c = Inr composite" and
    calls: "calls = [ModelForward, TapeGradient]"
    unfolding generate_saliency_map_def Let_def by (auto split: sum.splits)
  from sv have "c = composite"
    unfolding save_and_return_def by (auto split: option.splits)
  then show ?thesis using k hm c sv calls by blast
qed

lemma blend_cell:
  assumes "length hpx = 3" and "c < 3"
  shows "blend_pixel hpx ppx ! c = np_uint8 (float_blend (channels ppx ! c) (hpx ! c))"
proof -
  have "length (channels ppx) = 3" by (simp add: channels_def split: prod.splits)
  then show ?thesis using assms by (simp add: blend_pixel_def)
qed

lemma tf_column_valid:
  "0 \<le> ci \<Longrightarrow> ci < int (length ps) \<Longrightarrow> tf_column ps ci = Inr (nat ci)"
  by (simp add: tf_column_def)





lemma save_and_return_written:
  "uploaded_file E = Some name \<Longrightarrow> open_wb E (os_path_join output_dir name) = None \<Longrightarrow>
   cv_imwrite L (saliency_map_path name) (cvt_rgb2bgr c) = None \<Longrightarrow>
   save_and_return L E c = Inr c"
  by (simp add: save_and_return_def)

section \<open>Constant maps, an all-zero gradient and an empty mask\<close>

lemma all_same_replicate: "(\<forall>v \<in> set xs. v = z) \<Longrightarrow> xs = replicate (length xs) z"
  by (induction xs) simp_all

lemma np_uint8_zero: "np_uint8 0 = 0"
  by (simp add: np_uint8_def)

lemma select_replicate:
  "set (select_mask (NDArray h w (replicate n z)) m) \<subseteq> {z}"
  by (auto simp: select_mask_def dest!: set_zip_leftD)

lemma selected_member:
  "(x, True) \<in> set (zip gs bs) \<Longrightarrow> x \<in> set (map fst (filter snd (zip gs bs)))"
  by force

lemma constant_on_mask_unchanged:
  assumes len: "length (cells r) = length (cells m)"
    and ne: "select_mask r m \<noteq> []"
    and const: "Max (set (select_mask r m)) = Min (set (select_mask r m))"
  shows "normalize_brain (apply_mask r m) m = Inr (apply_mask r m) \<and>
         percentile_threshold (apply_mask r m) m = apply_mask r m"
proof -
  let ?a = "apply_mask r m"
  let ?bg = "select_mask r m"
  define c where "c = Max (set ?bg)"
  have sel: "select_mask ?a m = ?bg" by (rule select_apply_mask[OF len])
  have norm: "normalize_brain ?a m = Inr ?a"
    using ne const by (intro normalize_brain_constant) (simp_all add: sel)
  have allc: "\<forall>v \<in> set ?bg. v = c"
  proof
    fix v assume v: "v \<in> set ?bg"
    then have "v \<le> Max (set ?bg)" "Min (set ?bg) \<le> v" by simp_all
    then show "v = c" using const by (simp add: c_def)
  qed
  have bgc: "?bg = replicate (length ?bg) c" by (rule all_same_replicate[OF allc])
  have t: "np_percentile (select_mask ?a m) 80 = c"
    unfolding sel using percentile_constant[of "length ?bg" c] ne bgc by simp
  have vals: "\<forall>v \<in> set (cells ?a). v = c \<or> v = 0"
  proof
    fix v assume "v \<in> set (cells ?a)"
    then obtain x b where xb: "(x, b) \<in> set (zip (cells r) (cells m))"
      and v: "v = x * (if b then 1 else 0)"
      by (auto simp: apply_mask_def)
    show "v = c \<or> v = 0"
    proof (cases b)
      case True
      then have "x \<in> set ?bg" using xb unfolding select_mask_def by (intro selected_member) simp
      then show ?thesis using allc v True by simp
    next
      case False
      then show ?thesis using v by simp
    qed
  qed
  have eqm: "map (\<lambda>v. if v < c then 0 else v) (cells ?a) = cells ?a"
    using vals by (intro map_idI) auto
  have "percentile_threshold ?a m =
      NDArray (nrows ?a) (ncols ?a) (map (\<lambda>v. if v < c then 0 else v) (cells ?a))"
    unfolding percentile_threshold_def Let_def t by (rule refl)
  also have "\<dots> = NDArray (nrows ?a) (ncols ?a) (cells ?a)" unfolding eqm by (rule refl)
  also have "\<dots> = ?a" by (rule ndarray.collapse)
  finally have thr: "percentile_threshold ?a m = ?a" .
  show ?thesis using norm thr by simp
qed

lemma constant_map_unchanged:
  assumes s: "1 \<le> s"
  shows "normalize_brain (apply_mask (NDArray s s (replicate (s * s) c)) (circular_mask s s))
           (circular_mask s s) =
         Inr (apply_mask (NDArray s s (replicate (s * s) c)) (circular_mask s s)) \<and>
         percentile_threshold (apply_mask (NDArray s s (replicate (s * s) c)) (circular_mask s s))
           (circular_mask s s) =
         apply_mask (NDArray s s (replicate (s * s) c)) (circular_mask s s)"
proof -
  let ?g = "NDArray s s (replicate (s * s) c)"
  let ?m = "circular_mask s s"
  have wg: "well_shaped ?g" by (simp add: well_shaped_def)
  have len: "length (cells ?g) = length (cells ?m)" by (simp add: circular_mask_shape)
  have ne: "select_mask ?g ?m \<noteq> []" using centre_cell_selected[OF s _ _ wg] by simp
  have sub: "set (select_mask ?g ?m) \<subseteq> {c}" by (rule select_replicate)
  have "set (select_mask ?g ?m) = {c}" using ne sub by (cases "select_mask ?g ?m") auto
  then have "Max (set (select_mask ?g ?m)) = Min (set (select_mask ?g ?m))" by simp
  from constant_on_mask_unchanged[OF len ne this] show ?thesis .
qed


lemma zero_gradient_thresholded:
  assumes ok: "libs_ok L" and kz: "keeps_zero L" and s: "1 \<le> s"
    and grad: "plain_batch gradients"
    and zero: "\<forall>px \<in> set (cells gradients). px = (0, 0, 0)"
  shows "thresholded_map L gradients (s, s) = Inr (NDArray s s (replicate (s * s) 0))"
proof -
  let ?m = "circular_mask s s"
  let ?z = "NDArray s s (replicate (s * s) (0::rat))"
  from resize_returns[OF ok grad, of s s] s obtain r where
    r: "cv_resize L (np_squeeze (channel_max_abs gradients)) (s, s) = Inr r"
    by auto
  note rsh = libs_ok_resize[OF ok r]
  have gz: "\<forall>v \<in> set (cells (channel_max_abs gradients)). v = 0"
    using zero by (auto simp: channel_max_abs_def)
  have "cv_resize L (Matrix (channel_max_abs gradients)) (s, s) = Inr r"
    using r by (simp only: squeeze_plain_batch[OF grad])
  with gz have rz: "\<forall>v \<in> set (cells r). v = 0" using kz unfolding keeps_zero_def by blast
  have "cells r = replicate (s * s) 0" using all_same_replicate[OF rz] rsh by simp
  then have rev: "r = ?z" using rsh by (cases r) simp
  have az: "apply_mask ?z ?m = ?z"
  proof -
    have "\<forall>v \<in> set (cells (apply_mask ?z ?m)). v = 0"
      by (auto simp: apply_mask_def dest!: set_zip_leftD)
    from all_same_replicate[OF this] show ?thesis
      by (cases "apply_mask ?z ?m") (simp add: apply_mask_def circular_mask_shape)
  qed
  have wz: "well_shaped ?z" by (simp add: well_shaped_def)
  have ne: "select_mask ?z ?m \<noteq> []"
    using centre_cell_selected[OF s _ _ wz] by simp
  have sub: "set (select_mask ?z ?m) \<subseteq> {0}" by (rule select_replicate)
  have "set (select_mask ?z ?m) = {0}" using ne sub by (cases "select_mask ?z ?m") auto
  then have "Max (set (select_mask ?z ?m)) = Min (set (select_mask ?z ?m))" by simp
  from normalize_brain_constant[OF ne this] have nz: "normalize_brain ?z ?m = Inr ?z" .
  have tz: "percentile_threshold ?z ?m = ?z"
    by (simp add: percentile_threshold_def Let_def)
  show ?thesis
    unfolding thresholded_map_def Let_def r rev
    by (simp add: az nz tz)
qed

lemma zero_gradient_heatmap:
  assumes ok: "libs_ok L" and kz: "keeps_zero L" and s: "1 \<le> s"
    and grad: "plain_batch gradients"
    and zero: "\<forall>px \<in> set (cells gradients). px = (0, 0, 0)"
  shows "saliency_heatmap L gradients (s, s) =
     Inr (NDArray s s (replicate (s * s) (case cv_colormap L 0 of (b, g, r) \<Rightarrow> [r, g, b])))"
proof -
  let ?z = "NDArray s s (replicate (s * s) (0::rat))"
  let ?b = "cv_gaussian_blur L ?z"
  have "\<forall>v \<in> set (cells ?z). v = 0" by simp
  then have bz: "\<forall>v \<in> set (cells ?b). v = 0" using kz unfolding keeps_zero_def by blast
  have bsh: "nrows ?b = s" "ncols ?b = s" "length (cells ?b) = s * s"
    by (simp_all add: libs_ok_blur[OF ok])
  have "cells ?b = replicate (s * s) 0" using all_same_replicate[OF bz] bsh by simp
  then have b: "?b = ?z" using bsh by (cases ?b) simp
  let ?hm = "NDArray s s (replicate (s * s) (case cv_colormap L 0 of (b, g, r) \<Rightarrow> [r, g, b]))"
  have col: "cvt_bgr2rgb (apply_color_map L ?z) = ?hm"
    by (simp add: cvt_bgr2rgb_def apply_color_map_def np_uint8_zero split: prod.splits)
  have same: "cv_resize_rgb L ?hm (s, s) = ?hm"
    by (rule libs_ok_same_size[OF ok]) simp_all
  show ?thesis
    unfolding saliency_heatmap_def zero_gradient_thresholded[OF ok kz s grad zero]
    by (simp add: b col same)
qed

lemma zero_gradient_composite:
  assumes ok: "libs_ok L" and kz: "keeps_zero L" and s: "1 \<le> s"
    and ci: "tf_column (forward model img_array) class_index = Inr k"
    and grad: "plain_batch (tape_gradient model img_array k)"
    and shape: "nrows (img E) = s" "ncols (img E) = s" "well_shaped (img E)"
    and zero: "\<forall>px \<in> set (cells (tape_gradient model img_array k)). px = (0, 0, 0)"
  shows "generate_saliency_map L E model img_array class_index (s, s) =
     ([ModelForward, TapeGradient],
      save_and_return L E (NDArray s s
        (map (blend_pixel (case cv_colormap L 0 of (b, g, r) \<Rightarrow> [r, g, b])) (cells (img E)))))"
proof -
  let ?c = "case cv_colormap L 0 of (b, g, r) \<Rightarrow> [r, g, b]"
  let ?hm = "NDArray s s (replicate (s * s) ?c)"
  have hm: "saliency_heatmap L (tape_gradient model img_array k) (s, s) = Inr ?hm"
    by (rule zero_gradient_heatmap[OF ok kz s grad zero])
  have plen: "length (cells (img E)) = s * s" using shape by (simp add: well_shaped_def)
  have wh: "well_shaped ?hm" by (simp add: well_shaped_def)
  have z: "map2 f (replicate n c) ps = map (f c) ps" if "length ps = n"
    for f :: "u8 list \<Rightarrow> u8 \<times> u8 \<times> u8 \<Rightarrow> u8 list" and n c ps
    using that by (induction ps arbitrary: n) auto
  have sup: "superimpose ?hm (img E) = Inr (NDArray s s (map (blend_pixel ?c) (cells (img E))))"
    using superimpose_same_shape[of ?hm "img E"] shape wh by (simp add: z[OF plen])
  show ?thesis
    by (simp only: generate_saliency_map_def Let_def ci hm sup sum.case)
qed


section \<open>The stand-ins\<close>

lemma nearest_resize_shape:
  "nrows (nearest_resize d a (w, h)) = h" "ncols (nearest_resize d a (w, h)) = w"
  "length (cells (nearest_resize d a (w, h))) = h * w"
  by (simp_all add: nearest_resize_def)

lemma libs_ok_plain: "libs_ok plain_libs"
proof -
  have shape: "nrows r = h \<and> ncols r = w \<and> well_shaped r"
    if "resize_map a (w, h) = Inr r" for a w h r
    using that unfolding resize_map_def
    by (auto simp: nearest_resize_shape well_shaped_def split: if_splits squeezed.splits)
  have returns: "\<exists>r. resize_map (Matrix m) (w, h) = Inr r"
    if "well_shaped m \<and> 0 < nrows m \<and> 0 < ncols m \<and> 0 < w \<and> 0 < h" for m w h
  proof -
    from that have "length (cells m) \<noteq> 0" by (simp add: well_shaped_def)
    then have "cells m \<noteq> []" by simp
    then show ?thesis using that by (simp add: resize_map_def)
  qed
  show ?thesis
    unfolding libs_ok_def plain_libs_def libs.sel
    using shape returns by (simp add: resize_rgb_def)
qed

lemma keeps_zero_plain: "keeps_zero plain_libs"
proof -
  have "\<forall>v \<in> set (cells r). v = 0"
    if "\<forall>v \<in> set (cells m). v = 0" and "resize_map (Matrix m) dsize = Inr r" for m dsize r
    using that unfolding resize_map_def
    by (cases dsize) (auto simp: nearest_resize_def Let_def split: if_splits)
  then show ?thesis
    unfolding keeps_zero_def plain_libs_def libs.sel by blast
qed

lemma flat_image_shape:
  "nrows (flat_image h w v) = h" "ncols (flat_image h w v) = w" "well_shaped (flat_image h w v)"
  "cells (flat_image h w v) = replicate (h * w) (v, v, v)"
  by (simp_all add: flat_image_def well_shaped_def)

lemma flat_tensor_batch: "1 < h \<Longrightarrow> 1 < w \<Longrightarrow> plain_batch (flat_tensor h w v)"
  by (simp add: plain_batch_def flat_tensor_def well_shaped_def)

lemma linear_stub_forward: "length (forward (linear_stub n c) t) = n"
  by (simp add: linear_stub_def)

lemma linear_stub_batch: "plain_batch t \<Longrightarrow> plain_batch (tape_gradient (linear_stub n c) t k)"
  by (simp add: linear_stub_def plain_batch_def well_shaped_def)

lemma linear_stub_zero: "\<forall>px \<in> set (cells (tape_gradient (linear_stub n 0) t k)). px = (0, 0, 0)"
  by (simp add: linear_stub_def)

lemma jet_zero: "cv_colormap plain_libs 0 = (128, 0, 0)"
proof -
  have "jet_palette 0 = (128, 0, 0)" by code_simp
  then show ?thesis by (simp add: plain_libs_def)
qed

lemma blend_0_0: "np_uint8 (float_blend 0 0) = 0"
  by (simp add: float_blend_def float64_def float32_def ieee_round_def np_uint8_def)


lemma blend_128_0: "np_uint8 (float_blend 128 0) = 38"
proof -
  have "float64 (float64 (0 * float64 (7 / 10)) + float32 (128 * float32 (float64 (3 / 10)))) =
      5033165 / 131072"
    by code_simp
  then have v: "float_blend 128 0 = 5033165 / 131072"
    by (simp add: float_blend_def)
  have f: "\<lfloor>5033165 / 131072 :: rat\<rfloor> = 38" by (rule floor_unique) simp_all
  show ?thesis unfolding v by (simp add: np_uint8_def f)
qed

lemma blend_128_128: "np_uint8 (float_blend 128 128) = 128"
proof -
  have "float64 (float64 (128 * float64 (7 / 10)) + float32 (128 * float32 (float64 (3 / 10)))) =
      4503599681057587 / 35184372088832"
    by code_simp
  then have v: "float_blend 128 128 = 4503599681057587 / 35184372088832"
    by (simp add: float_blend_def)
  have f: "\<lfloor>4503599681057587 / 35184372088832 :: rat\<rfloor> = 128" by (rule floor_unique) simp_all
  show ?thesis unfolding v by (simp add: np_uint8_def f)
qed



lemma blend_0_180: "np_uint8 (float_blend 0 180) = 125"
proof -
  have "float64 (float64 (180 * float64 (7 / 10)) + float32 (0 * float32 (float64 (3 / 10)))) =
      8866461766385663 / 70368744177664"
    by code_simp
  then have v: "float_blend 0 180 = 8866461766385663 / 70368744177664"
    by (simp add: float_blend_def)
  have f: "\<lfloor>8866461766385663 / 70368744177664 :: rat\<rfloor> = 125" by (rule floor_unique) simp_all
  show ?thesis unfolding v by (simp add: np_uint8_def f)
qed


lemma blend_on_gray: "blend_pixel [0, 0, 128] (128, 128, 128) = [38, 38, 128]"
  by (simp add: blend_pixel_def channels_def blend_128_0 blend_128_128)


lemma blend_level_13: "blend_pixel [0, 0, 180] (0, 0, 0) = [0, 0, 125]"
  by (simp add: blend_pixel_def channels_def blend_0_0 blend_0_180)

lemma scaled_gray: "np_uint8 (float32 (128 * float32 (float64 (3 / 10)))) = 38"
proof -
  have v: "float32 (128 * float32 (float64 (3 / 10))) = 5033165 / 131072" by code_simp
  have f: "\<lfloor>5033165 / 131072 :: rat\<rfloor> = 38" by (rule floor_unique) simp_all
  show ?thesis unfolding v by (simp add: np_uint8_def f)
qed



lemma scan_png_opened: "one_directory (os_path_join output_dir ''scan.png'') = None"
  by code_simp

lemma scan_png_saved:
  "save_and_return plain_libs (Env p (Some ''scan.png'') one_directory) c = Inr c"
proof -
  note scan_png_opened
  moreover have "imwrite_by_extension (saliency_map_path ''scan.png'') im = None" for im
    by (simp add: imwrite_by_extension_def saliency_map_path_def ends_with_def)
  ultimately show ?thesis by (simp add: save_and_return_def plain_libs_def)
qed

lemma stub_run:
  assumes "1 \<le> s" and "tf_column (forward (linear_stub n 0) t) ci = Inr k" and "plain_batch t"
  shows "generate_saliency_map plain_libs (Env (flat_image s s v) up fs)
           (linear_stub n 0) t ci (s, s) =
         ([ModelForward, TapeGradient],
          save_and_return plain_libs (Env (flat_image s s v) up fs)
            (NDArray s s (replicate (s * s) (blend_pixel [0, 0, 128] (v, v, v)))))"
  using zero_gradient_composite[OF libs_ok_plain keeps_zero_plain assms(1) assms(2)
      linear_stub_batch[OF assms(3)], of "Env (flat_image s s v) up fs"]
  by (simp add: flat_image_shape linear_stub_zero jet_zero)

lemma stub_column0: "tf_column (forward (linear_stub 4 c) t) 0 = Inr 0"
  by (simp add: tf_column_def linear_stub_forward)

lemma stub_column_last: "tf_column (forward (linear_stub 4 0) t) (- 1) = Inr 3"
  by (simp add: tf_column_def linear_stub_forward)







lemma nested_name_not_opened:
  "save_and_return plain_libs (Env p (Some ''a/b.png'') one_directory) c = Inl OSError"
proof -
  have "one_directory (os_path_join output_dir ''a/b.png'') = Some OSError" by code_simp
  then show ?thesis by (simp add: save_and_return_def)
qed

lemma stub_run_saved:
  assumes "1 \<le> s" and "tf_column (forward (linear_stub n 0) t) ci = Inr k" and "plain_batch t"
  shows "generate_saliency_map plain_libs (Env (flat_image s s v) (Some ''scan.png'') one_directory)
           (linear_stub n 0) t ci (s, s) =
         ([ModelForward, TapeGradient],
          Inr (NDArray s s (replicate (s * s) (blend_pixel [0, 0, 128] (v, v, v)))))"
  unfolding stub_run[OF assms] scan_png_saved by (rule refl)

lemma batch_299: "plain_batch (flat_tensor 299 299 v)"
  by (rule flat_tensor_batch) simp_all

lemma stub_batch_299: "plain_batch (tape_gradient (linear_stub n c) (flat_tensor 299 299 v) k)"
  by (rule linear_stub_batch[OF batch_299])

lemma level_13: "np_uint8 (255 / 19) = 13"
proof -
  have f: "\<lfloor>255 / 19 :: rat\<rfloor> = 13" by (rule floor_unique) simp_all
  show ?thesis by (simp add: np_uint8_def f)
qed

lemma jet_13: "cv_colormap plain_libs 13 = (180, 0, 0)"
proof -
  have "jet_palette 13 = (180, 0, 0)" by code_simp
  then show ?thesis by (simp add: plain_libs_def)
qed

lemma level_13_thresholded:
  "thresholded_map plain_libs (tape_gradient (linear_stub 4 (1 / 19)) (flat_tensor 3 3 (1 / 2)) 0)
     (3, 3) =
   Inr (NDArray 3 3 (replicate 9 (1 / 19)))"
  by code_simp

lemma level_13_heatmap:
  "saliency_heatmap plain_libs (tape_gradient (linear_stub 4 (1 / 19)) (flat_tensor 3 3 (1 / 2)) 0)
     (3, 3) =
   Inr (NDArray 3 3 (replicate 9 [0, 0, 180]))"
proof -
  have blur: "cv_gaussian_blur plain_libs a = a" for a by (simp add: plain_libs_def)
  have col: "cvt_bgr2rgb (apply_color_map plain_libs (NDArray 3 3 (replicate 9 (1 / 19)))) =
      NDArray 3 3 (replicate 9 [0, 0, 180])"
    by (simp add: apply_color_map_def cvt_bgr2rgb_def level_13 jet_13)
  have same: "cv_resize_rgb plain_libs (NDArray 3 3 (replicate 9 [0, 0, 180])) (3, 3) =
      NDArray 3 3 (replicate 9 [0, 0, 180])"
    by (rule libs_ok_same_size[OF libs_ok_plain]) simp_all
  show ?thesis
    unfolding saliency_heatmap_def level_13_thresholded
    by (simp only: sum.case blur col same)
qed

lemma level_13_composite:
  "generate_saliency_map plain_libs (Env (flat_image 3 3 0) (Some ''scan.png'') one_directory)
     (linear_stub 4 (1 / 19)) (flat_tensor 3 3 (1 / 2)) 0 (3, 3) =
   ([ModelForward, TapeGradient], Inr (NDArray 3 3 (replicate 9 [0, 0, 125])))"
proof -
  have sup: "superimpose (NDArray 3 3 (replicate 9 [0, 0, 180])) (flat_image 3 3 0) =
      Inr (NDArray 3 3 (replicate 9 [0, 0, 125]))"
    using superimpose_same_shape[of "NDArray 3 3 (replicate 9 [0, 0, 180])" "flat_image 3 3 0"]
    by (simp add: flat_image_def well_shaped_def blend_level_13)
  show ?thesis
    by (simp only: generate_saliency_map_def Let_def stub_column0 level_13_heatmap env.sel sup
        scan_png_saved sum.case)
qed

section \<open>The claims\<close>




text \<open>
  Claim C2. Let \<open>g\<close> be the resized gradient map and \<open>m\<close> the mask. The values that
  enter the statistics are exactly the cells of \<open>g\<close> where the mask is true. Whenever their
  maximum strictly exceeds their minimum, the normalisation step (applied, as in the source,
  to the masked map) returns a map of the same shape in which every cell inside the mask is
  \<open>(v - min) / (max - min)\<close> for its value \<open>v\<close>, a number in [0,1], and every cell
  outside the mask is zero.
\<close>

theorem normalize_brain_in_mask:
  assumes len: "length (cells g) = length (cells m)"
    and ne: "select_mask g m \<noteq> []"
    and lt: "Min (set (select_mask g m)) < Max (set (select_mask g m))"
  shows "set (select_mask g m) = {cells g ! i | i. i < length (cells g) \<and> cells m ! i} \<and>
         (\<exists>g'. normalize_brain (apply_mask g m) m = Inr g' \<and>
            nrows g' = nrows g \<and> ncols g' = ncols g \<and> length (cells g') = length (cells g) \<and>
            (\<forall>i < length (cells g).
               (cells m ! i \<longrightarrow>
                  cells g' ! i = (cells g ! i - Min (set (select_mask g m))) /
                                  (Max (set (select_mask g m)) - Min (set (select_mask g m))) \<and>
                  0 \<le> cells g' ! i \<and> cells g' ! i \<le> 1) \<and>
               (\<not> cells m ! i \<longrightarrow> cells g' ! i = 0)))"
proof -
  let ?bg = "select_mask g m"
  let ?mn = "Min (set ?bg)" and ?mx = "Max (set ?bg)"
  let ?f = "\<lambda>v. (v - ?mn) / (?mx - ?mn)"
  let ?mg = "apply_mask g m"
  let ?g' = "NDArray (nrows ?mg) (ncols ?mg)
      (map2 (\<lambda>v b. if b then ?f v else v) (cells ?mg) (cells m))"
  have sel: "select_mask ?mg m = ?bg" using len by (rule select_apply_mask)
  have lenm: "length (cells ?mg) = length (cells m)" using len by (simp add: apply_mask_def)
  have d: "?mx - ?mn \<noteq> 0" using lt by simp
  have sel': "map fst (filter snd (zip (cells ?mg) (cells m))) = ?bg"
    using sel by (simp only: select_mask_def)
  have put: "put_mask (cells ?mg) (cells m) (map ?f ?bg) =
        map2 (\<lambda>v b. if b then ?f v else v) (cells ?mg) (cells m)"
    by (rule put_mask_map[OF lenm, where f = ?f]) (simp only: sel')
  have run: "normalize_brain ?mg m = Inr ?g'"
    using ne lt d unfolding normalize_brain_def Let_def sel by (simp add: np_max_Max np_min_Min those_divide put)
  have setS: "set ?bg = {cells g ! i | i. i < length (cells g) \<and> cells m ! i}"
    unfolding select_mask_def using len by (rule select_set)
  have cellwise: "(cells m ! i \<longrightarrow> cells ?g' ! i = ?f (cells g ! i) \<and>
        0 \<le> cells ?g' ! i \<and> cells ?g' ! i \<le> 1) \<and> (\<not> cells m ! i \<longrightarrow> cells ?g' ! i = 0)"
    if i: "i < length (cells g)" for i
  proof (cases "cells m ! i")
    case True
    have val: "cells ?g' ! i = ?f (cells g ! i)"
      using i len True by (simp add: apply_mask_def)
    have mem: "cells g ! i \<in> set ?bg" using setS i True by blast
    have lo: "?mn \<le> cells g ! i" using mem by simp
    have hi: "cells g ! i \<le> ?mx" using mem by simp
    have pos: "0 < ?mx - ?mn" using lt by simp
    have "0 \<le> ?f (cells g ! i)" using lo pos by simp
    moreover have "?f (cells g ! i) \<le> 1" using hi pos by simp
    ultimately show ?thesis using val True by simp
  next
    case False
    then show ?thesis using i len by (simp add: apply_mask_def)
  qed
  have shape: "nrows ?g' = nrows g \<and> ncols ?g' = ncols g \<and> length (cells ?g') = length (cells g)"
    using len by (simp add: apply_mask_def)
  show ?thesis
    apply (rule conjI[OF setS])
    apply (rule exI[of _ ?g'])
    using run shape cellwise by blast
qed

theorem normalize_brain_in_mask_witness:
  "length (cells (NDArray 2 2 [2, 4, 10, 6 :: rat])) = length (cells (circular_mask 2 2)) \<and>
   select_mask (NDArray 2 2 [2, 4, 10, 6 :: rat]) (circular_mask 2 2) \<noteq> [] \<and>
   Min (set (select_mask (NDArray 2 2 [2, 4, 10, 6 :: rat]) (circular_mask 2 2)))
     < Max (set (select_mask (NDArray 2 2 [2, 4, 10, 6 :: rat]) (circular_mask 2 2))) \<and>
   set (select_mask (NDArray 2 2 [2, 4, 10, 6 :: rat]) (circular_mask 2 2)) =
     {cells (NDArray 2 2 [2, 4, 10, 6 :: rat]) ! i | i.
        i < length (cells (NDArray 2 2 [2, 4, 10, 6 :: rat])) \<and> cells (circular_mask 2 2) ! i}"
proof -
  have sel: "select_mask (NDArray 2 2 [2, 4, 10, 6 :: rat]) (circular_mask 2 2) = [2, 4, 10, 6]"
    by code_simp
  have len: "length (cells (NDArray 2 2 [2, 4, 10, 6 :: rat])) = length (cells (circular_mask 2 2))"
    by (simp add: circular_mask_shape)
  have ne: "select_mask (NDArray 2 2 [2, 4, 10, 6 :: rat]) (circular_mask 2 2) \<noteq> []"
    by (simp add: sel)
  have lt: "Min (set (select_mask (NDArray 2 2 [2, 4, 10, 6 :: rat]) (circular_mask 2 2)))
      < Max (set (select_mask (NDArray 2 2 [2, 4, 10, 6 :: rat]) (circular_mask 2 2)))"
    by (simp add: sel)
  from normalize_brain_in_mask [OF len ne lt] len ne lt show ?thesis by blast
qed




text \<open>
  Claim C4, as amended. Let \<open>t\<close> be the 80th percentile of the \<open>n\<close> in-mask values.
  The threshold step sets to zero exactly the cells of the whole map that are strictly below
  \<open>t\<close> and leaves every other cell as it is. At most \<open>(n + 3) div 5\<close> in-mask values,
  that is 20 percent of \<open>n - 1\<close> rounded up, are strictly above \<open>t\<close>; the in-mask cells
  that are not zero afterwards are at most that many plus the in-mask cells equal to \<open>t\<close>,
  which the strict comparison keeps.
\<close>

theorem threshold_survivors:
  assumes "length (cells g) = length (cells m)" and "select_mask g m \<noteq> []"
  shows "(\<forall>i < length (cells g).
            cells (percentile_threshold g m) ! i =
              (if cells g ! i < np_percentile (select_mask g m) 80 then 0 else cells g ! i)) \<and>
         length (filter (\<lambda>v. np_percentile (select_mask g m) 80 < v) (select_mask g m))
           \<le> (length (select_mask g m) + 3) div 5 \<and>
         length (filter (\<lambda>v. v \<noteq> 0) (select_mask (percentile_threshold g m) m))
           \<le> (length (select_mask g m) + 3) div 5 +
              length (filter (\<lambda>v. v = np_percentile (select_mask g m) 80) (select_mask g m))"
proof -
  let ?bg = "select_mask g m"
  let ?t = "np_percentile ?bg 80"
  have cellwise: "\<forall>i < length (cells g).
      cells (percentile_threshold g m) ! i = (if cells g ! i < ?t then 0 else cells g ! i)"
    by (simp add: percentile_threshold_def)
  have above: "length (filter (\<lambda>v. ?t < v) ?bg) \<le> (length ?bg + 3) div 5"
    using assms(2) by (rule count_above_percentile80)
  have sel: "select_mask (percentile_threshold g m) m = map (\<lambda>v. if v < ?t then 0 else v) ?bg"
    by (simp add: percentile_threshold_def select_map_cells)
  have "length (filter (\<lambda>v. v \<noteq> 0) (select_mask (percentile_threshold g m) m)) =
        length (filter (\<lambda>v. (if v < ?t then 0 else v) \<noteq> 0) ?bg)"
    by (simp add: sel filter_map comp_def)
  also have "\<dots> \<le> length (filter (\<lambda>v. ?t \<le> v) ?bg)"
    by (intro count_filter_mono) (simp split: if_splits)
  also have "\<dots> = length (filter (\<lambda>v. ?t < v) ?bg) + length (filter (\<lambda>v. v = ?t) ?bg)"
    by (rule count_ge_split)
  finally have "length (filter (\<lambda>v. v \<noteq> 0) (select_mask (percentile_threshold g m) m)) \<le>
        length (filter (\<lambda>v. ?t < v) ?bg) + length (filter (\<lambda>v. v = ?t) ?bg)" .
  then have survivors:
    "length (filter (\<lambda>v. v \<noteq> 0) (select_mask (percentile_threshold g m) m)) \<le>
       (length ?bg + 3) div 5 + length (filter (\<lambda>v. v = ?t) ?bg)"
    using above by linarith
  show ?thesis by (intro conjI) (rule cellwise, rule above, rule survivors)
qed

theorem threshold_survivors_witness:
  "length (cells (NDArray 2 2 [2, 4, 10, 6 :: rat])) = length (cells (circular_mask 2 2)) \<and>
   select_mask (NDArray 2 2 [2, 4, 10, 6 :: rat]) (circular_mask 2 2) \<noteq> [] \<and>
   length (filter (\<lambda>v. v \<noteq> 0)
      (select_mask (percentile_threshold (NDArray 2 2 [2, 4, 10, 6]) (circular_mask 2 2))
         (circular_mask 2 2)))
     \<le> (length (select_mask (NDArray 2 2 [2, 4, 10, 6 :: rat]) (circular_mask 2 2)) + 3) div 5 +
        length (filter
          (\<lambda>v. v = np_percentile (select_mask (NDArray 2 2 [2, 4, 10, 6]) (circular_mask 2 2)) 80)
          (select_mask (NDArray 2 2 [2, 4, 10, 6 :: rat]) (circular_mask 2 2)))"
proof -
  have sel: "select_mask (NDArray 2 2 [2, 4, 10, 6 :: rat]) (circular_mask 2 2) = [2, 4, 10, 6]"
    by code_simp
  have len: "length (cells (NDArray 2 2 [2, 4, 10, 6 :: rat])) = length (cells (circular_mask 2 2))"
    by (simp add: circular_mask_shape)
  have ne: "select_mask (NDArray 2 2 [2, 4, 10, 6 :: rat]) (circular_mask 2 2) \<noteq> []"
    by (simp add: sel)
  from threshold_survivors [OF len ne] len ne show ?thesis by blast
qed

text \<open>
  The claim as stated fails. On a 3 by 3 map every cell is in the mask (the radius is -9).
  When all nine values are 1/2 the normalisation is skipped, the threshold is 1/2 and all
  nine cells stay non-zero. When the nine values are distinct, 0, 1, ..., 8, they are
  normalised to 0, 1/8, ..., 1, the threshold is 4/5 and two cells of nine, more than 20
  percent, stay non-zero.
\<close>

theorem threshold_survivors_counterexample:
  "thresholded_map plain_libs (flat_tensor 3 3 (1 / 2)) (3, 3) =
     Inr (NDArray 3 3 [1 / 2, 1 / 2, 1 / 2, 1 / 2, 1 / 2, 1 / 2, 1 / 2, 1 / 2, 1 / 2]) \<and>
   length (select_mask (NDArray 3 3 [0, 1, 2, 3, 4, 5, 6, 7, 8 :: rat]) (circular_mask 3 3)) = 9 \<and>
   normalize_brain
       (apply_mask (NDArray 3 3 [0, 1, 2, 3, 4, 5, 6, 7, 8]) (circular_mask 3 3))
       (circular_mask 3 3) =
     Inr (NDArray 3 3 [0, 1 / 8, 1 / 4, 3 / 8, 1 / 2, 5 / 8, 3 / 4, 7 / 8, 1]) \<and>
   percentile_threshold (NDArray 3 3 [0, 1 / 8, 1 / 4, 3 / 8, 1 / 2, 5 / 8, 3 / 4, 7 / 8, 1])
       (circular_mask 3 3) =
     NDArray 3 3 [0, 0, 0, 0, 0, 0, 0, 7 / 8, 1]"
  by code_simp

text \<open>
  Claim C5, as amended. For a square output size of side \<open>s\<close> with \<open>s \<ge> 20\<close>, the mask
  is the disc of the cells \<open>(x, y)\<close> with
  \<open>(x - s div 2)\<^sup>2 + (y - s div 2)\<^sup>2 \<le> (s div 2 - 10)\<^sup>2\<close>: its centre is the centre cell
  of the image and its radius is half the side minus 10. Every cell of the mask has
  \<open>10 \<le> x \<le> s - 10\<close> and \<open>10 \<le> y \<le> s - 10\<close>, so ten rows and columns are excluded at the
  top and the left, and at least nine at the bottom and the right (ten when \<open>s\<close> is odd).
\<close>

theorem square_mask_margin:
  assumes "20 \<le> s" and "y < s" and "x < s"
  shows "(cell (circular_mask s s) y x \<longleftrightarrow>
           (int x - int (s div 2))\<^sup>2 + (int y - int (s div 2))\<^sup>2 \<le> (int (s div 2) - 10)\<^sup>2) \<and>
         (cell (circular_mask s s) y x \<longrightarrow>
            10 \<le> x \<and> x \<le> s - 10 \<and> 10 \<le> y \<and> y \<le> s - 10 \<and>
            (odd s \<longrightarrow> x + 10 < s \<and> y + 10 < s))"
proof -
  define c where "c = int (s div 2)"
  define r where "r = c - 10"
  have r0: "0 \<le> r" using assms(1) by (simp add: r_def c_def)
  have eq: "cell (circular_mask s s) y x \<longleftrightarrow> (int x - c)\<^sup>2 + (int y - c)\<^sup>2 \<le> r\<^sup>2"
    using assms by (simp add: circular_mask_cell mask_test_def Let_def c_def r_def zdiv_int)
  have bound: "\<bar>int x - c\<bar> \<le> r \<and> \<bar>int y - c\<bar> \<le> r" if "cell (circular_mask s s) y x"
  proof -
    from that eq have le: "(int x - c)\<^sup>2 + (int y - c)\<^sup>2 \<le> r\<^sup>2" by simp
    have "(int x - c)\<^sup>2 \<le> r\<^sup>2" using le zero_le_power2[of "int y - c"] by linarith
    moreover have "(int y - c)\<^sup>2 \<le> r\<^sup>2" using le zero_le_power2[of "int x - c"] by linarith
    ultimately show ?thesis using r0 by (simp add: power2_le_iff_abs_le)
  qed
  have c2: "2 * c \<le> int s" "odd s \<Longrightarrow> 2 * c = int s - 1"
    by (simp_all add: c_def) presburger+
  have "10 \<le> x \<and> x \<le> s - 10 \<and> 10 \<le> y \<and> y \<le> s - 10 \<and> (odd s \<longrightarrow> x + 10 < s \<and> y + 10 < s)"
    if "cell (circular_mask s s) y x"
    using bound[OF that] c2 assms(1) unfolding r_def by (auto simp: abs_le_iff)
  then show ?thesis using eq by (simp add: c_def r_def)
qed

theorem square_mask_margin_witness:
  "(20::nat) \<le> 299 \<and> (149::nat) < 299 \<and> (288::nat) < 299 \<and>
   cell (circular_mask 299 299) 149 288 \<and> (288::nat) + 10 < 299"
proof -
  have "cell (circular_mask 299 299) 149 288"
    using square_mask_margin [of 299 149 288] by simp
  then show ?thesis
    using square_mask_margin [of 299 149 288] by simp
qed

text \<open>
  The claim as stated fails. For the output size (224, 224), which the program uses for its
  second model, the cell of row 112 and column 214 is in the mask and only the nine columns
  215..223 lie to its right. For the output size (10, 10) the radius is -5, its square is
  25, and the cell of row 5 and column 0, on the left edge, is in the mask.
\<close>

theorem mask_margin_counterexample:
  "cell (circular_mask 224 224) 112 214 \<and> \<not> (214 + 10 < (224::nat)) \<and>
   cell (circular_mask 10 10) 5 0"
  by (simp add: circular_mask_cell mask_test_def)

text \<open>
  Claim C6, as amended. For a classifier with \<open>n\<close> classes and a class index \<open>i\<close> with
  \<open>i \<ge> n\<close> or \<open>i < -n\<close>, the call fails with \<^verbatim>\<open>InvalidArgumentError\<close>. The error is
  raised by the slice on line 59, after the forward pass of the classifier on line 58 and
  before the gradient is computed: the forward pass is the only call made to the classifier.
\<close>

theorem class_index_out_of_bounds:
  assumes "int (length (forward model img_array)) \<le> class_index \<or>
           class_index < - int (length (forward model img_array))"
  shows "generate_saliency_map L E model img_array class_index img_size =
           ([ModelForward], Inl InvalidArgumentError)"
  using assms unfolding generate_saliency_map_def Let_def tf_column_def by auto

theorem class_index_out_of_bounds_witness:
  "int (length (forward (linear_stub 4 0) (flat_tensor 299 299 (1 / 2)))) \<le> 4 \<and>
   generate_saliency_map plain_libs
     (Env (flat_image 299 299 128) (Some ''scan.png'') one_directory)
     (linear_stub 4 0) (flat_tensor 299 299 (1 / 2)) 4 (299, 299) =
     ([ModelForward], Inl InvalidArgumentError)"
proof -
  have h: "int (length (forward (linear_stub 4 0) (flat_tensor 299 299 (1 / 2)))) \<le> 4"
    by (simp add: linear_stub_forward)
  then have "int (length (forward (linear_stub 4 0) (flat_tensor 299 299 (1 / 2)))) \<le> 4 \<or>
      4 < - int (length (forward (linear_stub 4 0) (flat_tensor 299 299 (1 / 2))))" by (rule disjI1)
  from class_index_out_of_bounds[OF this] h show ?thesis by (rule_tac conjI)
qed

text \<open>
  The claim as stated fails. With class index 4 against four classes the forward pass has
  run when the error is raised. With class index -1, outside \<open>0..3\<close>, the slice selects the
  last class and the call returns a composite.
\<close>

theorem class_index_counterexample:
  "fst (generate_saliency_map plain_libs
     (Env (flat_image 299 299 128) (Some ''scan.png'') one_directory)
     (linear_stub 4 0) (flat_tensor 299 299 (1 / 2)) 4 (299, 299)) = [ModelForward] \<and>
   generate_saliency_map plain_libs
     (Env (flat_image 299 299 128) (Some ''scan.png'') one_directory)
     (linear_stub 4 0) (flat_tensor 299 299 (1 / 2)) (- 1) (299, 299) =
     ([ModelForward, TapeGradient], Inr (NDArray 299 299 (replicate (299 * 299) [38, 38, 128])))"
proof -
  have a: "tf_column (forward (linear_stub 4 0) (flat_tensor 299 299 (1 / 2))) 4 =
      Inl InvalidArgumentError"
    by (simp add: tf_column_def linear_stub_forward)
  have "fst (generate_saliency_map plain_libs
     (Env (flat_image 299 299 128) (Some ''scan.png'') one_directory)
     (linear_stub 4 0) (flat_tensor 299 299 (1 / 2)) 4 (299, 299)) = [ModelForward]"
    by (simp only: generate_saliency_map_def Let_def a sum.case fst_conv)
  moreover have "generate_saliency_map plain_libs
     (Env (flat_image 299 299 128) (Some ''scan.png'') one_directory)
     (linear_stub 4 0) (flat_tensor 299 299 (1 / 2)) (- 1) (299, 299) =
     ([ModelForward, TapeGradient], Inr (NDArray 299 299 (replicate (299 * 299) [38, 38, 128])))"
    using stub_run_saved[OF _ stub_column_last batch_299, where s = 299 and v = 128]
    by (simp only: blend_on_gray)
  ultimately show ?thesis by (rule conjI)
qed




text \<open>
  Claim C8, as amended. For a classifier whose gradient is zero everywhere (of at least two
  rows and two columns), a square output size \<open>(s, s)\<close> (299 in the scenario), a class index
  in range, a module-level image of that size, \<^verbatim>\<open>uploaded_file\<close> bound to a name and the
  two file writes of lines 95-100 succeeding for that name, the call raises nothing and
  every pixel of the composite is 0.3 times the original pixel plus 0.7 times the colour
  the palette gives to level 0, as lines 90-92 compute it in floating point, truncated to 8
  bits ((38, 38, 128) for mid-gray 128 and the jet palette): the heat map is uniform, and it
  is present in the composite. The threshold does not zero a constant map: a map that is the
  same number on all of the image is, once masked, left as it is by the normalisation and by
  the threshold.
\<close>

theorem zero_gradient_scenario:
  assumes ok: "libs_ok L" and kz: "keeps_zero L" and s: "1 \<le> s"
    and ci: "0 \<le> class_index" "class_index < int (length (forward model img_array))"
    and grad: "plain_batch (tape_gradient model img_array (nat class_index))"
    and zero: "\<forall>px \<in> set (cells (tape_gradient model img_array (nat class_index))). px = (0, 0, 0)"
    and shape: "nrows (img E) = s" "ncols (img E) = s" "well_shaped (img E)"
    and up: "uploaded_file E = Some name"
    and wr: "open_wb E (os_path_join output_dir name) = None"
    and iw: "cv_imwrite L (saliency_map_path name)
               (cvt_rgb2bgr (NDArray s s
                  (map (blend_pixel (case cv_colormap L 0 of (b, g, r) \<Rightarrow> [r, g, b]))
                     (cells (img E))))) = None"
  shows "generate_saliency_map L E model img_array class_index (s, s) =
           ([ModelForward, TapeGradient],
            Inr (NDArray s s
              (map (blend_pixel (case cv_colormap L 0 of (b, g, r) \<Rightarrow> [r, g, b]))
                 (cells (img E))))) \<and>
         normalize_brain (apply_mask (NDArray s s (replicate (s * s) c)) (circular_mask s s))
             (circular_mask s s) =
           Inr (apply_mask (NDArray s s (replicate (s * s) c)) (circular_mask s s)) \<and>
         percentile_threshold (apply_mask (NDArray s s (replicate (s * s) c)) (circular_mask s s))
             (circular_mask s s) =
           apply_mask (NDArray s s (replicate (s * s) c)) (circular_mask s s)"
proof -
  have "generate_saliency_map L E model img_array class_index (s, s) =
           ([ModelForward, TapeGradient],
            Inr (NDArray s s
              (map (blend_pixel (case cv_colormap L 0 of (b, g, r) \<Rightarrow> [r, g, b]))
                 (cells (img E)))))"
    unfolding zero_gradient_composite[OF ok kz s tf_column_valid[OF ci] grad shape zero]
      save_and_return_written[OF up wr iw]
    by (rule refl)
  then show ?thesis using constant_map_unchanged[OF s, of c] by (rule conjI)
qed

theorem zero_gradient_scenario_witness:
  "libs_ok plain_libs \<and> keeps_zero plain_libs \<and> (1::nat) \<le> 299 \<and>
   plain_batch (tape_gradient (linear_stub 4 0) (flat_tensor 299 299 (1 / 2)) (nat 0)) \<and>
   well_shaped (flat_image 299 299 128) \<and>
   uploaded_file (Env (flat_image 299 299 128) (Some ''scan.png'') one_directory) =
     Some ''scan.png'' \<and>
   open_wb (Env (flat_image 299 299 128) (Some ''scan.png'') one_directory)
     (os_path_join output_dir ''scan.png'') = None \<and>
   generate_saliency_map plain_libs
     (Env (flat_image 299 299 128) (Some ''scan.png'') one_directory)
     (linear_stub 4 0) (flat_tensor 299 299 (1 / 2)) 0 (299, 299) =
     ([ModelForward, TapeGradient], Inr (NDArray 299 299 (replicate (299 * 299) [38, 38, 128])))"
proof -
  have one: "(1::nat) \<le> 299" by simp
  have wr: "open_wb (Env (flat_image 299 299 128) (Some ''scan.png'') one_directory)
      (os_path_join output_dir ''scan.png'') = None"
    by (simp add: scan_png_opened)
  have iw: "cv_imwrite plain_libs (saliency_map_path ''scan.png'') im = None" for im
    by (simp add: plain_libs_def imwrite_by_extension_def saliency_map_path_def ends_with_def)
  have "generate_saliency_map plain_libs
     (Env (flat_image 299 299 128) (Some ''scan.png'') one_directory)
     (linear_stub 4 0) (flat_tensor 299 299 (1 / 2)) 0 (299, 299) =
     ([ModelForward, TapeGradient],
      Inr (NDArray 299 299
        (map (blend_pixel (case cv_colormap plain_libs 0 of (b, g, r) \<Rightarrow> [r, g, b]))
           (cells (img (Env (flat_image 299 299 128) (Some ''scan.png'') one_directory))))))"
    by (rule zero_gradient_scenario[OF libs_ok_plain keeps_zero_plain one,
          where name = "''scan.png''", THEN conjunct1])
       (simp_all add: flat_image_shape linear_stub_forward linear_stub_zero stub_batch_299
          scan_png_opened iw)
  then have "generate_saliency_map plain_libs
     (Env (flat_image 299 299 128) (Some ''scan.png'') one_directory)
     (linear_stub 4 0) (flat_tensor 299 299 (1 / 2)) 0 (299, 299) =
     ([ModelForward, TapeGradient], Inr (NDArray 299 299 (replicate (299 * 299) [38, 38, 128])))"
    by (simp add: jet_zero flat_image_shape blend_on_gray)
  then show ?thesis
    using libs_ok_plain keeps_zero_plain flat_image_shape(3)[of 299 299 128] wr
      stub_batch_299[of 4 0 "1 / 2" "nat 0"]
    by simp
qed

text \<open>
  The claim as stated fails. In the scenario (a mid-gray image of 299 by 299 pixels, an
  all-zero gradient, class index 0) level 0 of the jet palette is red 0, green 0, blue 128;
  every pixel of the composite is (38, 38, 128), while 0.3 times the original is
  (38, 38, 38).
\<close>

theorem zero_gradient_scenario_counterexample:
  "generate_saliency_map plain_libs
     (Env (flat_image 299 299 128) (Some ''scan.png'') one_directory)
     (linear_stub 4 0) (flat_tensor 299 299 (1 / 2)) 0 (299, 299) =
     ([ModelForward, TapeGradient], Inr (NDArray 299 299 (replicate (299 * 299) [38, 38, 128]))) \<and>
   astype_uint8 (mul_float32 (img_to_array (flat_image 299 299 128)) (3 / 10)) =
     NDArray 299 299 (replicate (299 * 299) [38, 38, 38])"
proof -
  have one: "(1::nat) \<le> 299" by simp
  have a: "generate_saliency_map plain_libs
     (Env (flat_image 299 299 128) (Some ''scan.png'') one_directory)
     (linear_stub 4 0) (flat_tensor 299 299 (1 / 2)) 0 (299, 299) =
     ([ModelForward, TapeGradient], Inr (NDArray 299 299 (replicate (299 * 299) [38, 38, 128])))"
    using stub_run_saved[OF one stub_column0 batch_299, where v = 128]
    by (simp only: blend_on_gray)
  have b: "astype_uint8 (mul_float32 (img_to_array (flat_image 299 299 128)) (3 / 10)) =
     NDArray 299 299 (replicate (299 * 299) [38, 38, 38])"
    unfolding astype_uint8_def mul_float32_def img_to_array_def flat_image_def
    by (simp add: channels_def scaled_gray)
  from a b show ?thesis by (rule conjI)
qed

text \<open>
  Claim C9, as amended. Whenever the call returns a composite and the module-level image has
  the output size, the composite has that size and, for every pixel and channel, its value
  is the number that lines 90-92 compute in floating point for 0.3 times the original plus
  0.7 times the heat map (the image multiplied in float32 by the float32 number nearest to
  0.3, the heat map in float64 by the float64 number nearest to 0.7, the sum rounded to
  float64), with its fraction dropped. That number is in [0,256), so the cast never wraps
  modulo 256 and gives what clipping to [0,255] before the cast would give. It is within
  1/1000 of the exact 0.3 times the original plus 0.7 times the heat map, so the byte is the
  integer part of the exact value or one less, and it is the integer part of the exact value
  whenever 3 times the original plus 7 times the heat map is not a multiple of 10.
\<close>

theorem composite_is_float_blend:
  assumes ok: "libs_ok L"
    and run: "generate_saliency_map L E model img_array class_index (w, h) = (calls, Inr composite)"
    and shape: "nrows (img E) = h" "ncols (img E) = w" "well_shaped (img E)"
  shows "\<exists>k heatmap.
           tf_column (forward model img_array) class_index = Inr k \<and>
           saliency_heatmap L (tape_gradient model img_array k) (w, h) = Inr heatmap \<and>
           nrows composite = h \<and> ncols composite = w \<and> length (cells composite) = h * w \<and>
           (\<forall>i < h * w. \<forall>c < 3.
              uint (cells composite ! i ! c) =
                \<lfloor>float_blend (channels (cells (img E) ! i) ! c) (cells heatmap ! i ! c)\<rfloor> \<and>
              0 \<le> float_blend (channels (cells (img E) ! i) ! c) (cells heatmap ! i ! c) \<and>
              float_blend (channels (cells (img E) ! i) ! c) (cells heatmap ! i ! c) < 256 \<and>
              uint (cells composite ! i ! c) =
                spec_clip_cast
                  (float_blend (channels (cells (img E) ! i) ! c) (cells heatmap ! i ! c)) \<and>
              \<bar>float_blend (channels (cells (img E) ! i) ! c) (cells heatmap ! i ! c) -
               spec_blend (channels (cells (img E) ! i) ! c) (cells heatmap ! i ! c)\<bar> \<le> 1 / 1000 \<and>
              (uint (cells composite ! i ! c) =
                 spec_clip_cast
                   (spec_blend (channels (cells (img E) ! i) ! c) (cells heatmap ! i ! c)) \<or>
               uint (cells composite ! i ! c) =
                 spec_clip_cast
                   (spec_blend (channels (cells (img E) ! i) ! c) (cells heatmap ! i ! c)) - 1) \<and>
              (\<not> 10 dvd 3 * unat (channels (cells (img E) ! i) ! c) +
                         7 * unat (cells heatmap ! i ! c) \<longrightarrow>
               uint (cells composite ! i ! c) =
                 spec_clip_cast
                   (spec_blend (channels (cells (img E) ! i) ! c) (cells heatmap ! i ! c))))"
proof -
  from generate_Inr[OF run] obtain k hm where
    k: "tf_column (forward model img_array) class_index = Inr k" and
    hm: "saliency_heatmap L (tape_gradient model img_array k) (w, h) = Inr hm" and
    sup: "superimpose hm (img E) = Inr composite"
    by blast
  from heatmap_cells[OF ok hm] have
    hsh: "nrows hm = h" "ncols hm = w" "length (cells hm) = h * w" and
    three: "\<forall>px \<in> set (cells hm). length px = 3"
    by auto
  have wh: "well_shaped hm" using hsh by (simp add: well_shaped_def)
  have plen: "length (cells (img E)) = h * w" using shape by (simp add: well_shaped_def)
  have cmp_eq: "composite = NDArray h w (map2 blend_pixel (cells hm) (cells (img E)))"
    using superimpose_same_shape[of hm "img E"] sup hsh shape wh by simp
  have cellc: "cells composite ! i ! c =
      np_uint8 (float_blend (channels (cells (img E) ! i) ! c) (cells hm ! i ! c))"
    if i: "i < h * w" and c: "c < 3" for i c
  proof -
    have len3: "length (cells hm ! i) = 3" using three i hsh by simp
    have ci: "cells composite ! i = blend_pixel (cells hm ! i) (cells (img E) ! i)"
      unfolding cmp_eq using i hsh plen by simp
    show ?thesis unfolding ci by (rule blend_cell[OF len3 c])
  qed
  have "\<forall>i < h * w. \<forall>c < 3.
          uint (cells composite ! i ! c) =
            \<lfloor>float_blend (channels (cells (img E) ! i) ! c) (cells hm ! i ! c)\<rfloor> \<and>
          0 \<le> float_blend (channels (cells (img E) ! i) ! c) (cells hm ! i ! c) \<and>
          float_blend (channels (cells (img E) ! i) ! c) (cells hm ! i ! c) < 256 \<and>
          uint (cells composite ! i ! c) =
            spec_clip_cast (float_blend (channels (cells (img E) ! i) ! c) (cells hm ! i ! c)) \<and>
          \<bar>float_blend (channels (cells (img E) ! i) ! c) (cells hm ! i ! c) -
           spec_blend (channels (cells (img E) ! i) ! c) (cells hm ! i ! c)\<bar> \<le> 1 / 1000 \<and>
          (uint (cells composite ! i ! c) =
             spec_clip_cast (spec_blend (channels (cells (img E) ! i) ! c) (cells hm ! i ! c)) \<or>
           uint (cells composite ! i ! c) =
             spec_clip_cast (spec_blend (channels (cells (img E) ! i) ! c) (cells hm ! i ! c)) - 1) \<and>
          (\<not> 10 dvd 3 * unat (channels (cells (img E) ! i) ! c) + 7 * unat (cells hm ! i ! c) \<longrightarrow>
           uint (cells composite ! i ! c) =
             spec_clip_cast (spec_blend (channels (cells (img E) ! i) ! c) (cells hm ! i ! c)))"
  proof (intro allI impI)
    fix i c assume i: "i < h * w" and c: "c < (3::nat)"
    show "uint (cells composite ! i ! c) =
            \<lfloor>float_blend (channels (cells (img E) ! i) ! c) (cells hm ! i ! c)\<rfloor> \<and>
          0 \<le> float_blend (channels (cells (img E) ! i) ! c) (cells hm ! i ! c) \<and>
          float_blend (channels (cells (img E) ! i) ! c) (cells hm ! i ! c) < 256 \<and>
          uint (cells composite ! i ! c) =
            spec_clip_cast (float_blend (channels (cells (img E) ! i) ! c) (cells hm ! i ! c)) \<and>
          \<bar>float_blend (channels (cells (img E) ! i) ! c) (cells hm ! i ! c) -
           spec_blend (channels (cells (img E) ! i) ! c) (cells hm ! i ! c)\<bar> \<le> 1 / 1000 \<and>
          (uint (cells composite ! i ! c) =
             spec_clip_cast (spec_blend (channels (cells (img E) ! i) ! c) (cells hm ! i ! c)) \<or>
           uint (cells composite ! i ! c) =
             spec_clip_cast (spec_blend (channels (cells (img E) ! i) ! c) (cells hm ! i ! c)) - 1) \<and>
          (\<not> 10 dvd 3 * unat (channels (cells (img E) ! i) ! c) + 7 * unat (cells hm ! i ! c) \<longrightarrow>
           uint (cells composite ! i ! c) =
             spec_clip_cast (spec_blend (channels (cells (img E) ! i) ! c) (cells hm ! i ! c)))"
      unfolding cellc[OF i c] by (rule blend_byte)
  qed
  moreover have "nrows composite = h \<and> ncols composite = w \<and> length (cells composite) = h * w"
    using hsh plen by (simp add: cmp_eq)
  ultimately show ?thesis using k hm by blast
qed

theorem composite_is_float_blend_witness:
  "libs_ok plain_libs \<and>
   well_shaped (img (Env (flat_image 299 299 128) (Some ''scan.png'') one_directory)) \<and>
   generate_saliency_map plain_libs
     (Env (flat_image 299 299 128) (Some ''scan.png'') one_directory)
     (linear_stub 4 0) (flat_tensor 299 299 (1 / 2)) 0 (299, 299) =
     ([ModelForward, TapeGradient], Inr (NDArray 299 299 (replicate (299 * 299) [38, 38, 128]))) \<and>
   (\<exists>heatmap.
      saliency_heatmap plain_libs
        (tape_gradient (linear_stub 4 0) (flat_tensor 299 299 (1 / 2)) 0) (299, 299) = Inr heatmap)"
proof -
  have one: "(1::nat) \<le> 299" by simp
  have run: "generate_saliency_map plain_libs
     (Env (flat_image 299 299 128) (Some ''scan.png'') one_directory)
     (linear_stub 4 0) (flat_tensor 299 299 (1 / 2)) 0 (299, 299) =
     ([ModelForward, TapeGradient], Inr (NDArray 299 299 (replicate (299 * 299) [38, 38, 128])))"
    using stub_run_saved[OF one stub_column0 batch_299, where v = 128]
    by (simp only: blend_on_gray)
  have sh: "nrows (img (Env (flat_image 299 299 128) (Some ''scan.png'') one_directory)) = 299"
    "ncols (img (Env (flat_image 299 299 128) (Some ''scan.png'') one_directory)) = 299"
    "well_shaped (img (Env (flat_image 299 299 128) (Some ''scan.png'') one_directory))"
    by (simp_all add: flat_image_shape)
  from composite_is_float_blend[OF libs_ok_plain run sh] obtain k heatmap where
    "tf_column (forward (linear_stub 4 0) (flat_tensor 299 299 (1 / 2))) 0 = Inr k"
    "saliency_heatmap plain_libs
        (tape_gradient (linear_stub 4 0) (flat_tensor 299 299 (1 / 2)) k) (299, 299) = Inr heatmap"
    by blast
  then have "\<exists>heatmap. saliency_heatmap plain_libs
        (tape_gradient (linear_stub 4 0) (flat_tensor 299 299 (1 / 2)) 0) (299, 299) = Inr heatmap"
    by (auto simp: stub_column0)
  then show ?thesis using libs_ok_plain run sh(3) by simp
qed

text \<open>
  The claim as stated fails. For a classifier whose gradient is 1/19 everywhere, the output
  size (3, 3) and a black image, every cell of the map is 1/19, its level is 13, the jet
  palette gives red 0, green 0, blue 180, and the call returns blue 125 in every pixel:
  180 times the float64 number nearest to 0.7 is just below 126. The exact
  0.3 times 0 plus 0.7 times 180 is 126.
\<close>

theorem composite_blend_counterexample:
  "saliency_heatmap plain_libs (tape_gradient (linear_stub 4 (1 / 19)) (flat_tensor 3 3 (1 / 2)) 0)
     (3, 3) =
     Inr (NDArray 3 3 (replicate 9 [0, 0, 180])) \<and>
   generate_saliency_map plain_libs (Env (flat_image 3 3 0) (Some ''scan.png'') one_directory)
     (linear_stub 4 (1 / 19)) (flat_tensor 3 3 (1 / 2)) 0 (3, 3) =
     ([ModelForward, TapeGradient], Inr (NDArray 3 3 (replicate 9 [0, 0, 125]))) \<and>
   spec_clip_cast (spec_blend 0 180) = 126"
proof -
  have "spec_clip_cast (spec_blend 0 180) = 126"
    by (simp add: spec_clip_cast_def spec_blend_def)
  with level_13_heatmap level_13_composite show ?thesis by (intro conjI)
qed

text \<open>
  Claim C10. For every square output size of side at least 1 the circular mask is not empty:
  the centre cell (side div 2, side div 2) is inside the array and satisfies the mask
  inequality, because the squared radius is not negative. So the selection
  \<^verbatim>\<open>gradients[mask]\<close> is not empty, and \<^verbatim>\<open>max()\<close> and \<^verbatim>\<open>min()\<close> on it return a
  value instead of raising; the percentile is taken of the same non-empty selection.
\<close>

theorem mask_centre_selected:
  assumes "1 \<le> s" and "nrows g = s" and "ncols g = s" and "well_shaped g"
  shows "s div 2 < s \<and> cell (circular_mask s s) (s div 2) (s div 2) \<and>
         select_mask g (circular_mask s s) \<noteq> [] \<and>
         (\<exists>mx. np_max (select_mask g (circular_mask s s)) = Inr mx) \<and>
         (\<exists>mn. np_min (select_mask g (circular_mask s s)) = Inr mn)"
  using assms by (rule centre_cell_selected)

theorem mask_centre_selected_witness:
  "(1::nat) \<le> 3 \<and> well_shaped (NDArray 3 3 [0, 1, 2, 3, 4, 5, 6, 7, 8 :: rat]) \<and>
   cell (circular_mask 3 3) (3 div 2) (3 div 2) \<and>
   select_mask (NDArray 3 3 [0, 1, 2, 3, 4, 5, 6, 7, 8 :: rat]) (circular_mask 3 3) \<noteq> []"
proof -
  have h: "well_shaped (NDArray 3 3 [0, 1, 2, 3, 4, 5, 6, 7, 8 :: rat])"
    by (simp add: well_shaped_def)
  show ?thesis
    using h mask_centre_selected [of 3 "NDArray 3 3 [0, 1, 2, 3, 4, 5, 6, 7, 8]"] by simp
qed

end
